theory Spec2Isabelle
  imports Complex_Main "HOL-Library.Word" "HOL-Library.Sublist"
begin

section \<open>Data model of \<^verbatim>\<open>libspec.py\<close>\<close>

text \<open>
  The class \<^verbatim>\<open>ASQESpectrometer\<close> drives a spectrometer through a native driver library.
  The driver is not part of the repository: it is a parameter of the model, a record of
  state transformers over an arbitrary device state \<open>'d\<close>. Every function of the driver
  returns the status code (\<^verbatim>\<open>c_int\<close>) first, then what it left in its output arguments.

  Conventions of the embedding:
  \<^item> bytes are \<open>8 word\<close>, pixel samples \<open>16 word\<close>; the \<^verbatim>\<open>ctypes\<close> conversions of the
    arguments wrap around, as \<open>word_of_int\<close> and \<open>word_of_nat\<close> do;
  \<^item> a Python \<^verbatim>\<open>str\<close> is the list of its Unicode code points;
  \<^item> \<^verbatim>\<open>float64\<close> values are the real numbers they denote: rounding, infinities and NaN
    are outside the model, so statements about quotients assume nonzero divisors;
  \<^item> an exception is the \<open>Inl\<close> of the result, returned with the session as the raise
    left it; a call that never returns is \<open>None\<close>;
  \<^item> every call into the driver, and every \<^verbatim>\<open>sleep\<close>, is appended to the \<open>trace\<close> of the
    session, which is how the number and the order of the device operations are observed.
\<close>

type_synonym byte = "8 word"
type_synonym pystr = "nat list"

datatype error =
    ConnectionError int
  | RuntimeError int
  | UnicodeDecodeError
  | ValueError
  | TypeError

datatype call =
    ConnectToDevice
  | SetAcquisitionParameters "16 word" "16 word" "8 word" "32 word"
  | SetFrameFormat "16 word" "16 word" "8 word"
  | TriggerAcquisition
  | Sleep nat
  | GetStatus
  | GetFrame nat "16 word"
  | ReadFlash "32 word" "32 word"

record 'd driver =
  connectToDevice :: "'d \<Rightarrow> int \<times> 'd"
  setAcquisitionParameters :: "16 word \<Rightarrow> 16 word \<Rightarrow> 8 word \<Rightarrow> 32 word \<Rightarrow> 'd \<Rightarrow> int \<times> 'd"
  setFrameFormat :: "16 word \<Rightarrow> 16 word \<Rightarrow> 8 word \<Rightarrow> 'd \<Rightarrow> (int \<times> 16 word) \<times> 'd"
  getStatus :: "'d \<Rightarrow> (int \<times> 8 word \<times> 16 word) \<times> 'd"
  getFrame :: "16 word \<Rightarrow> 'd \<Rightarrow> (int \<times> 16 word list) \<times> 'd"
  triggerAcquisition :: "'d \<Rightarrow> int \<times> 'd"
  readFlash :: "32 word \<Rightarrow> 32 word \<Rightarrow> 'd \<Rightarrow> (int \<times> byte list) \<times> 'd"

text \<open>
  The conversions of text to numbers are Python's \<^verbatim>\<open>float\<close> and numpy's conversion of a
  string to \<^verbatim>\<open>float64\<close>; \<open>None\<close> is their \<^verbatim>\<open>ValueError\<close>. They are parameters too.
\<close>

record parsers =
  py_float :: "pystr \<Rightarrow> real option"
  np_float :: "pystr \<Rightarrow> real option"

record 'd session =
  dev :: 'd
  trace :: "call list"
  num_of_scans :: int
  num_of_blank_scans :: int
  exposure_time :: int
  scan_mode :: int
  num_of_start_element :: int
  num_of_end_element :: int
  reduction_mode :: int
  calibration_data_loaded :: bool
  bck_aT :: "real option"
  wavelength :: "real list option"
  norm_coef :: "real list option"
  power_coef :: "real list option"

text \<open>The attributes \<^verbatim>\<open>__init__\<close> sets before it connects.\<close>

definition new_session :: "'d \<Rightarrow> 'd session" where
  "new_session d =
     \<lparr>dev = d, trace = [], num_of_scans = 1, num_of_blank_scans = 0, exposure_time = 1000,
      scan_mode = 3, num_of_start_element = 0, num_of_end_element = 3647, reduction_mode = 0,
      calibration_data_loaded = False, bck_aT = None, wavelength = None, norm_coef = None,
      power_coef = None\<rparr>"

definition connect :: "'d driver \<Rightarrow> 'd session \<Rightarrow> (error + unit) \<times> 'd session" where
  "connect lib s =
     (case connectToDevice lib (dev s) of
        (result, d') \<Rightarrow>
          let s' = s\<lparr>dev := d', trace := trace s @ [ConnectToDevice]\<rparr>
          in if result \<noteq> 0 then (Inl (ConnectionError result), s') else (Inr (), s'))"

definition init :: "'d driver \<Rightarrow> 'd \<Rightarrow> (error + unit) \<times> 'd session" where
  "init lib d = connect lib (new_session d)"

section \<open>Reading the flash\<close>

text \<open>
  A \<^verbatim>\<open>ctypes\<close> array of \<open>n\<close> elements starts as zeros; the driver writes into it from the
  front. Only the \<open>n\<close> allocated elements are read back.
\<close>

definition ctypes_buffer :: "nat \<Rightarrow> 'a::zero list \<Rightarrow> 'a list" where
  "ctypes_buffer n written = take n (written @ replicate (n - length written) 0)"

definition read_flash :: "'d driver \<Rightarrow> nat \<Rightarrow> nat \<Rightarrow> 'd session \<Rightarrow> (error + byte list) \<times> 'd session" where
  "read_flash lib offset sz s =
     (case readFlash lib (word_of_nat offset) (word_of_nat sz) (dev s) of
        ((result, written), d') \<Rightarrow>
          let s' = s\<lparr>dev := d', trace := trace s @ [ReadFlash (word_of_nat offset) (word_of_nat sz)]\<rparr>
          in if result \<noteq> 0 then (Inl (RuntimeError result), s')
             else (Inr (ctypes_buffer sz written), s'))"

text \<open>\<^verbatim>\<open>bytes.find\<close>: the least index where the pattern starts, \<open>None\<close> for Python's \<open>-1\<close>.\<close>

fun bytes_find :: "byte list \<Rightarrow> byte list \<Rightarrow> nat option" where
  "bytes_find [] pat = (if pat = [] then Some 0 else None)"
| "bytes_find (x # xs) pat =
     (if prefix pat (x # xs) then Some 0 else map_option Suc (bytes_find xs pat))"

abbreviation CHUNK_SIZE :: nat where "CHUNK_SIZE \<equiv> 1000"
abbreviation MAX_SIZE :: nat where "MAX_SIZE \<equiv> 100000"
abbreviation marker :: "byte list" where "marker \<equiv> [0xFF, 0xFF]"

function read_calibration_loop ::
  "'d driver \<Rightarrow> nat \<Rightarrow> bool \<Rightarrow> byte list \<Rightarrow> 'd session \<Rightarrow> (error + byte list) \<times> 'd session" where
  "read_calibration_loop lib offset FOUND_TERMINATION full_data s =
     (if offset \<le> MAX_SIZE \<and> \<not> FOUND_TERMINATION then
        (case read_flash lib offset CHUNK_SIZE s of
           (Inl e, s') \<Rightarrow> (Inl e, s')
         | (Inr data, s') \<Rightarrow>
             (case bytes_find data marker of
                Some stop_index \<Rightarrow>
                  read_calibration_loop lib (offset + CHUNK_SIZE) True
                    (full_data @ take stop_index data) s'
              | None \<Rightarrow>
                  read_calibration_loop lib (offset + CHUNK_SIZE) False (full_data @ data) s'))
      else (Inr full_data, s))"
  by pat_completeness auto
termination
  by (relation "measure (\<lambda>(lib, offset, found, full_data, s). MAX_SIZE + CHUNK_SIZE - offset)") auto

declare read_calibration_loop.simps [simp del]

definition read_calibration_file :: "'d driver \<Rightarrow> 'd session \<Rightarrow> (error + byte list) \<times> 'd session" where
  "read_calibration_file lib s = read_calibration_loop lib 0 False [] s"

section \<open>Parsing the calibration text\<close>

text \<open>
  \<^verbatim>\<open>bytes.decode("utf-8")\<close> with the default strict error handling: the well-formed byte
  sequences of the Unicode standard, no overlong forms, no surrogates, nothing above
  U+10FFFF. \<open>None\<close> is \<^verbatim>\<open>UnicodeDecodeError\<close>.
\<close>

definition cont :: "byte \<Rightarrow> bool" where
  "cont b \<longleftrightarrow> 0x80 \<le> b \<and> b \<le> 0xBF"

definition second_ok :: "byte \<Rightarrow> byte \<Rightarrow> bool" where
  "second_ok b0 b1 \<longleftrightarrow>
     (if b0 = 0xE0 then 0xA0 \<le> b1 \<and> b1 \<le> 0xBF
      else if b0 = 0xED then 0x80 \<le> b1 \<and> b1 \<le> 0x9F
      else if b0 = 0xF0 then 0x90 \<le> b1 \<and> b1 \<le> 0xBF
      else if b0 = 0xF4 then 0x80 \<le> b1 \<and> b1 \<le> 0x8F
      else cont b1)"

fun utf8_decode :: "byte list \<Rightarrow> pystr option" where
  "utf8_decode [] = Some []"
| "utf8_decode (b0 # bs) =
     (if b0 < 0x80 then map_option ((#) (unat b0)) (utf8_decode bs)
      else if 0xC2 \<le> b0 \<and> b0 \<le> 0xDF then
        (case bs of
           b1 # r \<Rightarrow>
             if cont b1
             then map_option ((#) (unat b0 mod 32 * 64 + unat b1 mod 64)) (utf8_decode r)
             else None
         | _ \<Rightarrow> None)
      else if 0xE0 \<le> b0 \<and> b0 \<le> 0xEF then
        (case bs of
           b1 # b2 # r \<Rightarrow>
             if second_ok b0 b1 \<and> cont b2
             then map_option
                    ((#) (unat b0 mod 16 * 4096 + unat b1 mod 64 * 64 + unat b2 mod 64))
                    (utf8_decode r)
             else None
         | _ \<Rightarrow> None)
      else if 0xF0 \<le> b0 \<and> b0 \<le> 0xF4 then
        (case bs of
           b1 # b2 # b3 # r \<Rightarrow>
             if second_ok b0 b1 \<and> cont b2 \<and> cont b3
             then map_option
                    ((#) (unat b0 mod 8 * 262144 + unat b1 mod 64 * 4096 + unat b2 mod 64 * 64
                          + unat b3 mod 64))
                    (utf8_decode r)
             else None
         | _ \<Rightarrow> None)
      else None)"

text \<open>
  \<^verbatim>\<open>str.splitlines()\<close>: the text is cut at every line boundary (LF, VT, FF, CR, CR LF, FS,
  GS, RS, NEL, LS, PS), the boundaries are dropped, and there is no empty last line after a
  final boundary.
\<close>

definition linebreak :: "nat \<Rightarrow> bool" where
  "linebreak c \<longleftrightarrow> c \<in> {10, 11, 12, 13, 28, 29, 30, 133, 8232, 8233}"

fun splitlines_from :: "pystr \<Rightarrow> pystr \<Rightarrow> pystr list" where
  "splitlines_from cur [] = (if cur = [] then [] else [cur])"
| "splitlines_from cur (c # cs) =
     (if c = 13 then
        (case cs of
           c' # cs' \<Rightarrow>
             if c' = 10 then cur # splitlines_from [] cs' else cur # splitlines_from [] cs
         | [] \<Rightarrow> cur # splitlines_from [] cs)
      else if linebreak c then cur # splitlines_from [] cs
      else splitlines_from (cur @ [c]) cs)"

definition splitlines :: "pystr \<Rightarrow> pystr list" where
  "splitlines t = splitlines_from [] t"

text \<open>A Python slice \<^verbatim>\<open>xs[i:j]\<close> with constant bounds \<open>0 \<le> i \<le> j\<close>: it is clamped to the list.\<close>

definition slice :: "nat \<Rightarrow> nat \<Rightarrow> 'a list \<Rightarrow> 'a list" where
  "slice i j xs = take (j - i) (drop i xs)"

text \<open>\<^verbatim>\<open>np.array(lines, dtype=float)\<close>: every entry is converted, one failure fails the whole.\<close>

definition np_array :: "parsers \<Rightarrow> pystr list \<Rightarrow> real list option" where
  "np_array P ls = those (map (np_float P) ls)"

definition load_calibration_data ::
  "parsers \<Rightarrow> 'd driver \<Rightarrow> 'd session \<Rightarrow> (error + unit) \<times> 'd session" where
  "load_calibration_data P lib s =
     (if calibration_data_loaded s then (Inr (), s)
      else
        (case read_calibration_file lib s of
           (Inl e, s1) \<Rightarrow> (Inl e, s1)
         | (Inr calib, s1) \<Rightarrow>
             (case utf8_decode calib of
                None \<Rightarrow> (Inl UnicodeDecodeError, s1)
              | Some decode_data \<Rightarrow>
                  let lines = splitlines decode_data in
                  (case (if 1 < length lines then py_float P (lines ! 1) else None) of
                     None \<Rightarrow> (Inl ValueError, s1)
                   | Some b \<Rightarrow>
                       let s2 = s1\<lparr>bck_aT := Some b\<rparr> in
                       (case np_array P (slice 12 3665 lines) of
                          None \<Rightarrow> (Inl ValueError, s2)
                        | Some w \<Rightarrow>
                            let s3 = s2\<lparr>wavelength := Some w\<rparr> in
                            (case np_array P (slice 3666 7319 lines) of
                               None \<Rightarrow> (Inl ValueError, s3)
                             | Some n \<Rightarrow>
                                 let s4 = s3\<lparr>norm_coef := Some n\<rparr> in
                                 (case np_array P (slice 7320 10973 lines) of
                                    None \<Rightarrow> (Inl ValueError, s4)
                                  | Some p \<Rightarrow>
                                      (Inr (), s4\<lparr>power_coef := Some p,
                                                  calibration_data_loaded := True\<rparr>))))))))"

section \<open>Acquisition\<close>

text \<open>
  \<^verbatim>\<open>configure_acquisition\<close> and \<^verbatim>\<open>capture_frame\<close> call the driver and drop the status code
  it returns.
\<close>

definition configure_acquisition :: "'d driver \<Rightarrow> 'd session \<Rightarrow> (error + unit) \<times> 'd session" where
  "configure_acquisition lib s =
     (let a1 = word_of_int (num_of_scans s); a2 = word_of_int (num_of_blank_scans s);
          a3 = word_of_int (scan_mode s); a4 = word_of_int (exposure_time s)
      in case setAcquisitionParameters lib a1 a2 a3 a4 (dev s) of
        (result1, d1) \<Rightarrow>
          let f1 = word_of_int (num_of_start_element s); f2 = word_of_int (num_of_end_element s);
              f3 = word_of_int (reduction_mode s)
          in case setFrameFormat lib f1 f2 f3 d1 of
            ((result2, num_pixels), d2) \<Rightarrow>
              (Inr (), s\<lparr>dev := d2,
                         trace := trace s @ [SetAcquisitionParameters a1 a2 a3 a4,
                                             SetFrameFormat f1 f2 f3]\<rparr>))"

text \<open>
  The polling loop of \<^verbatim>\<open>capture_frame\<close>: while the frame count is zero, sleep 25 ms and ask
  the device again. It has no bound, so it is a partial function: \<open>None\<close> when no poll ever
  reports a frame.
\<close>

partial_function (option) poll :: "'d driver \<Rightarrow> 16 word \<Rightarrow> 'd session \<Rightarrow> 'd session option" where
  "poll lib frames s =
     (if frames = 0 then
        poll lib (snd (snd (fst (getStatus lib (dev s)))))
          (s\<lparr>dev := snd (getStatus lib (dev s)), trace := trace s @ [Sleep 25, GetStatus]\<rparr>)
      else Some s)"

definition capture_frame ::
  "'d driver \<Rightarrow> 'd session \<Rightarrow> ((error + 16 word list) \<times> 'd session) option" where
  "capture_frame lib s =
     (case triggerAcquisition lib (dev s) of
        (result, d1) \<Rightarrow>
          (case poll lib 0 (s\<lparr>dev := d1, trace := trace s @ [TriggerAcquisition]\<rparr>) of
             None \<Rightarrow> None
           | Some s2 \<Rightarrow>
               let buffer_size = 3694 in
               (case getFrame lib 65535 (dev s2) of
                  ((result', written), d3) \<Rightarrow>
                    Some (Inr (ctypes_buffer buffer_size written),
                          s2\<lparr>dev := d3, trace := trace s2 @ [GetFrame buffer_size 65535]\<rparr>))))"

definition get_spectrum ::
  "'d driver \<Rightarrow> 'd session \<Rightarrow> ((error + 16 word list) \<times> 'd session) option" where
  "get_spectrum lib s = capture_frame lib s"

section \<open>The numeric pipeline\<close>

definition np_mean :: "real list \<Rightarrow> real" where
  "np_mean xs = sum_list xs / real (length xs)"

definition sample :: "16 word \<Rightarrow> real" where
  "sample x = real (unat x)"

definition subtract_background ::
  "'d driver \<Rightarrow> 'd session \<Rightarrow> ((error + real list) \<times> 'd session) option" where
  "subtract_background lib s =
     (case capture_frame lib s of
        None \<Rightarrow> None
      | Some (Inl e, s') \<Rightarrow> Some (Inl e, s')
      | Some (Inr data, s') \<Rightarrow>
          let devd = np_mean (map sample (slice 15 31 data));
              devd2 = np_mean (map sample (slice 3686 3692 data));
              background = (devd + devd2) / 2;
              corrected = map (\<lambda>x. sample x - background) (slice 32 3685 data)
          in Some (Inr corrected, s'))"

text \<open>
  An in-place numpy operation \<^verbatim>\<open>data op= coef\<close> on one-dimensional arrays: the operand must
  have the length of \<open>data\<close>, or length 1 (it is then broadcast); anything else is a
  \<^verbatim>\<open>ValueError\<close>.
\<close>

definition np_inplace ::
  "(real \<Rightarrow> real \<Rightarrow> real) \<Rightarrow> real list \<Rightarrow> real list \<Rightarrow> error + real list" where
  "np_inplace f data coef =
     (if length coef = length data then Inr (map2 f data coef)
      else if length coef = 1 then Inr (map (\<lambda>x. f x (hd coef)) data)
      else Inl ValueError)"

definition normalize_spectrum ::
  "parsers \<Rightarrow> 'd driver \<Rightarrow> 'd session \<Rightarrow> ((error + real list option \<times> real list) \<times> 'd session) option" where
  "normalize_spectrum P lib s =
     (case (if \<not> calibration_data_loaded s then load_calibration_data P lib s else (Inr (), s)) of
        (Inl e, s1) \<Rightarrow> Some (Inl e, s1)
      | (Inr u, s1) \<Rightarrow>
          (case subtract_background lib s1 of
             None \<Rightarrow> None
           | Some (Inl e, s2) \<Rightarrow> Some (Inl e, s2)
           | Some (Inr data, s2) \<Rightarrow>
               (case norm_coef s2 of
                  None \<Rightarrow> Some (Inl TypeError, s2)
                | Some nc \<Rightarrow>
                    (case np_inplace (/) data nc of
                       Inl e \<Rightarrow> Some (Inl e, s2)
                     | Inr data' \<Rightarrow> Some (Inr (wavelength s2, data'), s2)))))"

definition get_calibrated_spectrum ::
  "parsers \<Rightarrow> 'd driver \<Rightarrow> 'd session \<Rightarrow> ((error + real list option \<times> real list) \<times> 'd session) option" where
  "get_calibrated_spectrum P lib s =
     (case normalize_spectrum P lib s of
        None \<Rightarrow> None
      | Some (Inl e, s') \<Rightarrow> Some (Inl e, s')
      | Some (Inr (wl, data), s') \<Rightarrow>
          (case (power_coef s', bck_aT s') of
             (Some pc, Some b) \<Rightarrow>
               (case np_inplace (*) data (map (\<lambda>p. p / (real_of_int (exposure_time s') * b)) pc) of
                  Inl e \<Rightarrow> Some (Inl e, s')
                | Inr data' \<Rightarrow> Some (Inr (wl, data'), s'))
           | _ \<Rightarrow> Some (Inl TypeError, s')))"

section \<open>Observing a session\<close>

text \<open>
  What follows is not code of the class: it names what the theorems observe. The number of
  triggers in a trace; the device after \<open>n\<close> status requests and the frame count the next
  request reports; the calls of \<open>n\<close> rounds of the polling loop.
\<close>

definition triggers :: "call list \<Rightarrow> nat" where
  "triggers t = length (filter (\<lambda>c. c = TriggerAcquisition) t)"

fun is_ReadFlash :: "call \<Rightarrow> bool" where
  "is_ReadFlash (ReadFlash offset sz) = True"
| "is_ReadFlash c = False"

fun device_after :: "'d driver \<Rightarrow> nat \<Rightarrow> 'd \<Rightarrow> 'd" where
  "device_after lib 0 d = d"
| "device_after lib (Suc n) d = device_after lib n (snd (getStatus lib d))"

definition frames_at :: "'d driver \<Rightarrow> nat \<Rightarrow> 'd \<Rightarrow> 16 word" where
  "frames_at lib n d = snd (snd (fst (getStatus lib (device_after lib n d))))"

definition polls :: "nat \<Rightarrow> call list" where
  "polls n = concat (replicate n [Sleep 25, GetStatus])"

text \<open>
  The chunk reads of \<^verbatim>\<open>read_calibration_file\<close>, as the driver answers them: \<open>flash_dev lib d j\<close>
  is the device after the reads of the chunks \<open>0, \<dots>, j - 1\<close> (1000 bytes each, at the
  offsets \<open>0, 1000, \<dots>\<close>) from the device \<open>d\<close>; \<open>flash_status\<close> and \<open>flash_chunk\<close> are the
  status of the read of chunk \<open>j\<close> after them and the buffer \<^verbatim>\<open>read_flash\<close> returns for it.
  \<open>flash_reads j n\<close> are the calls of \<open>n\<close> such reads from chunk \<open>j\<close> on.
\<close>

fun flash_dev :: "'d driver \<Rightarrow> 'd \<Rightarrow> nat \<Rightarrow> 'd" where
  "flash_dev lib d 0 = d"
| "flash_dev lib d (Suc j) =
     snd (readFlash lib (word_of_nat (CHUNK_SIZE * j)) (word_of_nat CHUNK_SIZE) (flash_dev lib d j))"

definition flash_status :: "'d driver \<Rightarrow> 'd \<Rightarrow> nat \<Rightarrow> int" where
  "flash_status lib d j =
     fst (fst (readFlash lib (word_of_nat (CHUNK_SIZE * j)) (word_of_nat CHUNK_SIZE)
                 (flash_dev lib d j)))"

definition flash_chunk :: "'d driver \<Rightarrow> 'd \<Rightarrow> nat \<Rightarrow> byte list" where
  "flash_chunk lib d j =
     ctypes_buffer CHUNK_SIZE
       (snd (fst (readFlash lib (word_of_nat (CHUNK_SIZE * j)) (word_of_nat CHUNK_SIZE)
                    (flash_dev lib d j))))"

definition flash_reads :: "nat \<Rightarrow> nat \<Rightarrow> call list" where
  "flash_reads j n =
     map (\<lambda>i. ReadFlash (word_of_nat (CHUNK_SIZE * i)) (word_of_nat CHUNK_SIZE)) [j..<j + n]"

text \<open>
  What a chunk-by-chunk search for the marker accumulates from a list of chunks, and how
  many of them it reads.
\<close>

fun scan :: "byte list list \<Rightarrow> byte list" where
  "scan [] = []"
| "scan (c # cs) = (case bytes_find c marker of Some i \<Rightarrow> take i c | None \<Rightarrow> c @ scan cs)"

fun reads :: "byte list list \<Rightarrow> nat" where
  "reads [] = 0"
| "reads (c # cs) = (case bytes_find c marker of Some i \<Rightarrow> 1 | None \<Rightarrow> Suc (reads cs))"

text \<open>
  A flash that holds the bytes \<open>mem\<close>, followed by zeros: every chunk read of
  \<^verbatim>\<open>read_calibration_file\<close> succeeds and \<^verbatim>\<open>read_flash\<close> returns the 1000 bytes of \<open>mem\<close> at its
  offset, the buffer keeping its zeros where \<open>mem\<close> has ended.
\<close>

definition chunk :: "byte list \<Rightarrow> nat \<Rightarrow> byte list" where
  "chunk mem j = ctypes_buffer CHUNK_SIZE (take CHUNK_SIZE (drop (CHUNK_SIZE * j) mem))"

definition flash_image :: "'d driver \<Rightarrow> 'd \<Rightarrow> byte list \<Rightarrow> bool" where
  "flash_image lib d mem \<longleftrightarrow>
     list_all (\<lambda>j. flash_status lib d j = 0 \<and> flash_chunk lib d j = chunk mem j) [0..<101]"

text \<open>
  A test double of the driver. \<^verbatim>\<open>connectToDevice\<close> returns the status \<open>m_connect\<close> and every
  other function the status \<open>m_status\<close>; the flash holds \<open>m_flash\<close>; the first \<open>m_busy\<close>
  status requests report no frame; \<^verbatim>\<open>getFrame\<close> delivers \<open>m_frame\<close>, as much of it as the
  bound it is given allows, and records that bound in \<open>m_max_len\<close>; \<^verbatim>\<open>readFlash\<close> records the
  offset and the size of every read in \<open>m_reads\<close>.
\<close>

record mock =
  m_flash :: "byte list"
  m_connect :: int
  m_status :: int
  m_busy :: nat
  m_frame :: "16 word list"
  m_max_len :: "16 word option"
  m_reads :: "(32 word \<times> 32 word) list"

definition mock_lib :: "mock driver" where
  "mock_lib =
     \<lparr>connectToDevice = (\<lambda>d. (m_connect d, d)),
      setAcquisitionParameters = (\<lambda>a1 a2 a3 a4 d. (m_status d, d)),
      setFrameFormat = (\<lambda>f1 f2 f3 d. ((m_status d, 3648), d)),
      getStatus = (\<lambda>d. ((m_status d, 0, if m_busy d = 0 then 1 else 0), d\<lparr>m_busy := m_busy d - 1\<rparr>)),
      getFrame = (\<lambda>max_len d. ((m_status d, take (unat max_len) (m_frame d)),
                                d\<lparr>m_max_len := Some max_len\<rparr>)),
      triggerAcquisition = (\<lambda>d. (m_status d, d)),
      readFlash = (\<lambda>offset sz d. ((m_status d, take (unat sz) (drop (unat offset) (m_flash d))),
                                 d\<lparr>m_reads := m_reads d @ [(offset, sz)]\<rparr>))\<rparr>"

text \<open>
  A device that accepts the connection and then rejects every command with status 1, and
  yet has a frame ready.
\<close>

definition faulty_device :: mock where
  "faulty_device =
     \<lparr>m_flash = [], m_connect = 0, m_status = 1, m_busy = 0, m_frame = [], m_max_len = None, m_reads = []\<rparr>"

text \<open>A device that reports its frame at the third status request.\<close>

definition slow_device :: mock where
  "slow_device =
     \<lparr>m_flash = [], m_connect = 0, m_status = 0, m_busy = 2, m_frame = replicate 3694 1000,
      m_max_len = None, m_reads = []\<rparr>"

text \<open>
  \<^verbatim>\<open>set_parameters\<close>: every argument that is not \<^verbatim>\<open>None\<close> replaces the attribute.
\<close>

definition set_parameters ::
  "int option \<Rightarrow> int option \<Rightarrow> int option \<Rightarrow> int option \<Rightarrow> int option \<Rightarrow> int option \<Rightarrow>
   int option \<Rightarrow> 'd session \<Rightarrow> 'd session" where
  "set_parameters scans blank_scans exposure mode start_element end_element reduction s =
     (let s1 = (case scans of None \<Rightarrow> s | Some v \<Rightarrow> s\<lparr>num_of_scans := v\<rparr>);
          s2 = (case blank_scans of None \<Rightarrow> s1 | Some v \<Rightarrow> s1\<lparr>num_of_blank_scans := v\<rparr>);
          s3 = (case exposure of None \<Rightarrow> s2 | Some v \<Rightarrow> s2\<lparr>exposure_time := v\<rparr>);
          s4 = (case mode of None \<Rightarrow> s3 | Some v \<Rightarrow> s3\<lparr>scan_mode := v\<rparr>);
          s5 = (case start_element of None \<Rightarrow> s4 | Some v \<Rightarrow> s4\<lparr>num_of_start_element := v\<rparr>);
          s6 = (case end_element of None \<Rightarrow> s5 | Some v \<Rightarrow> s5\<lparr>num_of_end_element := v\<rparr>)
      in (case reduction of None \<Rightarrow> s6 | Some v \<Rightarrow> s6\<lparr>reduction_mode := v\<rparr>))"

text \<open>
  The calibration a session has cached, and a client of the class: a finite sequence of
  calls of its methods other than the two that read the flash directly. The client goes on
  after an exception; \<open>run\<close> is \<open>None\<close> when a call never returns.
\<close>

definition cached ::
  "'d session \<Rightarrow> bool \<times> real option \<times> real list option \<times> real list option \<times> real list option" where
  "cached s = (calibration_data_loaded s, bck_aT s, wavelength s, norm_coef s, power_coef s)"

datatype api_call =
    Set_parameters "int option" "int option" "int option" "int option" "int option" "int option"
      "int option"
  | Configure_acquisition
  | Capture_frame
  | Get_spectrum
  | Subtract_background
  | Load_calibration_data
  | Normalize_spectrum
  | Get_calibrated_spectrum

fun step :: "parsers \<Rightarrow> 'd driver \<Rightarrow> api_call \<Rightarrow> 'd session \<Rightarrow> 'd session option" where
  "step P lib (Set_parameters a b c d e f g) s = Some (set_parameters a b c d e f g s)"
| "step P lib Configure_acquisition s = Some (snd (configure_acquisition lib s))"
| "step P lib Capture_frame s = map_option snd (capture_frame lib s)"
| "step P lib Get_spectrum s = map_option snd (get_spectrum lib s)"
| "step P lib Subtract_background s = map_option snd (subtract_background lib s)"
| "step P lib Load_calibration_data s = Some (snd (load_calibration_data P lib s))"
| "step P lib Normalize_spectrum s = map_option snd (normalize_spectrum P lib s)"
| "step P lib Get_calibrated_spectrum s = map_option snd (get_calibrated_spectrum P lib s)"

fun run :: "parsers \<Rightarrow> 'd driver \<Rightarrow> api_call list \<Rightarrow> 'd session \<Rightarrow> 'd session option" where
  "run P lib [] s = Some s"
| "run P lib (c # cs) s = (case step P lib c s of None \<Rightarrow> None | Some s' \<Rightarrow> run P lib cs s')"


text \<open>
  A stand-in for the two conversions, for closed examples: it reads a nonempty string of
  ASCII digits as the number it writes, which is what \<^verbatim>\<open>float\<close> and numpy return for such a
  string when it is short enough to be exact, and it rejects every other string.
\<close>

definition digits_float :: "pystr \<Rightarrow> real option" where
  "digits_float t =
     (if t \<noteq> [] \<and> list_all (\<lambda>c. 48 \<le> c \<and> c \<le> 57) t
      then Some (real (foldl (\<lambda>a c. 10 * a + (c - 48)) 0 t)) else None)"

definition digit_parsers :: parsers where
  "digit_parsers = \<lparr>py_float = digits_float, np_float = digits_float\<rparr>"

text \<open>
  A device whose flash holds the two lines \<^verbatim>\<open>0\<close> and \<^verbatim>\<open>1\<close> and the marker, and the session
  after the calibration has been loaded from it.
\<close>

definition short_device :: mock where
  "short_device =
     \<lparr>m_flash = [48, 10, 49, 0xFF, 0xFF], m_connect = 0, m_status = 0, m_busy = 0,
      m_frame = replicate 3694 1000, m_max_len = None, m_reads = []\<rparr>"

definition short_loaded :: "mock session" where
  "short_loaded =
     (new_session short_device)
       \<lparr>dev := short_device\<lparr>m_reads := [(0, 1000)]\<rparr>, trace := [ReadFlash 0 1000],
        calibration_data_loaded := True, bck_aT := Some 1,
        wavelength := Some [], norm_coef := Some [], power_coef := Some []\<rparr>"

text \<open>A device whose flash is empty: every chunk reads as zeros and no marker is found.\<close>

definition blank_device :: mock where
  "blank_device =
     \<lparr>m_flash = [], m_connect = 0, m_status = 0, m_busy = 0, m_frame = [], m_max_len = None,
      m_reads = []\<rparr>"

text \<open>
  The marker \<^verbatim>\<open>0xFF 0xFF\<close> stands at the position \<open>p\<close> of the bytes \<open>mem\<close>. Two devices for
  it: one whose flash has the marker at the start of the second chunk, at the offset 1000,
  and one whose flash has the first byte of the marker at the end of the first chunk and
  the second byte at the start of the second chunk.
\<close>

definition marker_at :: "byte list \<Rightarrow> nat \<Rightarrow> bool" where
  "marker_at mem p \<longleftrightarrow> p + 1 < length mem \<and> mem ! p = 0xFF \<and> mem ! (p + 1) = 0xFF"

definition boundary_device :: mock where
  "boundary_device =
     \<lparr>m_flash = replicate 1000 49 @ [0xFF, 0xFF], m_connect = 0, m_status = 0, m_busy = 0,
      m_frame = [], m_max_len = None, m_reads = []\<rparr>"

definition straddle_device :: mock where
  "straddle_device =
     \<lparr>m_flash = replicate 999 49 @ [0xFF, 0xFF], m_connect = 0, m_status = 0, m_busy = 0,
      m_frame = [], m_max_len = None, m_reads = []\<rparr>"

text \<open>A device whose flash holds the single line \<^verbatim>\<open>0\<close> and the marker.\<close>

definition one_line_device :: mock where
  "one_line_device =
     \<lparr>m_flash = [48, 10, 0xFF, 0xFF], m_connect = 0, m_status = 0, m_busy = 0,
      m_frame = [], m_max_len = None, m_reads = []\<rparr>"

text \<open>
  The synthetic calibration blob of the round trip: every line is written in ASCII and ended
  by a line feed, and the marker follows the last line. A line is plain when its characters
  are ASCII and none of them is a line boundary. \<open>synthetic_lines line0\<close> are the 10973 lines
  of a calibration file: \<open>line0\<close>, then \<^verbatim>\<open>7\<close> for \<^verbatim>\<open>bck_aT\<close>, ten lines \<^verbatim>\<open>h\<close>, 3653 wavelength
  lines \<^verbatim>\<open>1\<close>, a line \<^verbatim>\<open>x\<close>, 3653 normalization lines \<^verbatim>\<open>2\<close>, a line \<^verbatim>\<open>x\<close> and 3653 power lines
  \<^verbatim>\<open>3\<close>. With a first line of one character the text has 21946 bytes; with a first line
  of 54 characters it has 21999 bytes.
\<close>

definition ascii_encode :: "pystr \<Rightarrow> byte list" where
  "ascii_encode t = map word_of_nat t"

definition blob_text :: "pystr list \<Rightarrow> pystr" where
  "blob_text ls = concat (map (\<lambda>l. l @ [10]) ls)"

definition blob :: "pystr list \<Rightarrow> byte list" where
  "blob ls = ascii_encode (blob_text ls) @ marker"

definition plain_line :: "pystr \<Rightarrow> bool" where
  "plain_line l \<longleftrightarrow> list_all (\<lambda>c. c < 128 \<and> \<not> linebreak c) l"

definition synthetic_lines :: "pystr \<Rightarrow> pystr list" where
  "synthetic_lines line0 =
     [line0, [55]] @ replicate 10 [104] @ replicate 3653 [49] @ [[120]] @ replicate 3653 [50] @
     [[120]] @ replicate 3653 [51]"

definition round_trip_device :: mock where
  "round_trip_device =
     \<lparr>m_flash = blob (synthetic_lines [104]), m_connect = 0, m_status = 0, m_busy = 0,
      m_frame = [], m_max_len = None, m_reads = []\<rparr>"

definition straddling_device :: mock where
  "straddling_device =
     \<lparr>m_flash = blob (synthetic_lines (replicate 54 104)), m_connect = 0, m_status = 0,
      m_busy = 0, m_frame = [], m_max_len = None, m_reads = []\<rparr>"

section \<open>Properties of the acquisition\<close>

lemma length_ctypes_buffer: "length (ctypes_buffer n w) = n"
  by (simp add: ctypes_buffer_def)

lemma polls_Suc: "[Sleep 25, GetStatus] @ polls n = polls (Suc n)"
  by (simp add: polls_def)

lemma poll_found:
  "frames_at lib n (dev s) \<noteq> 0 \<Longrightarrow> (\<And>m. m < n \<Longrightarrow> frames_at lib m (dev s) = 0) \<Longrightarrow>
   poll lib 0 s = Some (s\<lparr>dev := device_after lib (Suc n) (dev s), trace := trace s @ polls (Suc n)\<rparr>)"
proof (induction n arbitrary: s)
  case 0
  then have nz: "snd (snd (fst (getStatus lib (dev s)))) \<noteq> 0" by (simp add: frames_at_def)
  show ?case
    apply (subst poll.simps)
    apply simp
    apply (subst poll.simps)
    using nz by (simp add: polls_def)
next
  case (Suc n)
  let ?s' = "s\<lparr>dev := snd (getStatus lib (dev s)), trace := trace s @ [Sleep 25, GetStatus]\<rparr>"
  have z: "snd (snd (fst (getStatus lib (dev s)))) = 0"
    using Suc.prems(2)[of 0] by (simp add: frames_at_def)
  have a: "frames_at lib n (dev ?s') \<noteq> 0" using Suc.prems(1) by (simp add: frames_at_def)
  have b: "\<And>m. m < n \<Longrightarrow> frames_at lib m (dev ?s') = 0"
    using Suc.prems(2)[of "Suc m" for m] by (simp add: frames_at_def)
  have "poll lib 0 s = poll lib 0 ?s'"
    by (subst poll.simps) (simp add: z)
  also have "\<dots> = Some (?s'\<lparr>dev := device_after lib (Suc n) (dev ?s'), trace := trace ?s' @ polls (Suc n)\<rparr>)"
    using a b by (rule Suc.IH)
  finally show ?case by (simp add: polls_Suc del: device_after.simps(2) ) (simp add: polls_def)
qed

lemma poll_returns:
  "poll lib f s = Some s' \<Longrightarrow> f = 0 \<longrightarrow> (\<exists>n. frames_at lib n (dev s) \<noteq> 0)"
proof (induction rule: poll.raw_induct[rotated 1, consumes 1])
  case (1 poll' lib f s s')
  show ?case
  proof (intro impI, cases "snd (snd (fst (getStatus lib (dev s)))) = 0")
    case True
    let ?s' = "s\<lparr>dev := snd (getStatus lib (dev s)), trace := trace s @ [Sleep 25, GetStatus]\<rparr>"
    assume "f = 0"
    with 1(2) True have "poll' lib 0 ?s' = Some s'" by simp
    from 1(1)[OF this] obtain n where "frames_at lib n (dev ?s') \<noteq> 0" by auto
    then have "frames_at lib (Suc n) (dev s) \<noteq> 0" by (simp add: frames_at_def)
    then show "\<exists>n. frames_at lib n (dev s) \<noteq> 0" by blast
  next
    case False
    then have "frames_at lib 0 (dev s) \<noteq> 0" by (simp add: frames_at_def)
    then show "\<exists>n. frames_at lib n (dev s) \<noteq> 0" by blast
  qed
qed

lemma capture_frame_alt:
  "capture_frame lib s =
     (case poll lib 0 (s\<lparr>dev := snd (triggerAcquisition lib (dev s)),
                          trace := trace s @ [TriggerAcquisition]\<rparr>) of
        None \<Rightarrow> None
      | Some s2 \<Rightarrow>
          Some (Inr (ctypes_buffer 3694 (snd (fst (getFrame lib 65535 (dev s2))))),
                s2\<lparr>dev := snd (getFrame lib 65535 (dev s2)),
                   trace := trace s2 @ [GetFrame 3694 65535]\<rparr>))"
  by (simp add: capture_frame_def split_beta Let_def split: option.splits)

lemma poll_never: "(\<And>n. frames_at lib n (dev s) = 0) \<Longrightarrow> poll lib 0 s = None"
  using poll_returns[of lib 0 s] by (cases "poll lib 0 s") auto

text \<open>
  Claim C9. \<^verbatim>\<open>capture_frame\<close> issues one trigger, then sleeps 25 ms and requests the status,
  again and again and without a bound, until a request reports a nonzero frame count; then it
  fetches the frame into a buffer of exactly 3694 samples. It returns as soon as a request
  reports a frame (after request number \<open>n\<close>, counted from 0, when that is the first one), and
  it never returns when none does.
\<close>

theorem capture_frame_polls:
  "((\<forall>n. frames_at lib n (snd (triggerAcquisition lib (dev s))) = 0) \<longrightarrow>
      capture_frame lib s = None) \<and>
   (\<forall>n. frames_at lib n (snd (triggerAcquisition lib (dev s))) \<noteq> 0 \<and>
        (\<forall>m<n. frames_at lib m (snd (triggerAcquisition lib (dev s))) = 0) \<longrightarrow>
        (\<exists>frame d'. capture_frame lib s =
             Some (Inr frame,
                   s\<lparr>dev := d',
                     trace := trace s @ [TriggerAcquisition] @ polls (Suc n) @ [GetFrame 3694 65535]\<rparr>)
           \<and> length frame = 3694))"
proof (intro conjI impI allI)
  let ?d1 = "snd (triggerAcquisition lib (dev s))"
  let ?s1 = "s\<lparr>dev := ?d1, trace := trace s @ [TriggerAcquisition]\<rparr>"
  assume "\<forall>n. frames_at lib n ?d1 = 0"
  then have "poll lib 0 ?s1 = None" by (intro poll_never) simp
  then show "capture_frame lib s = None"
    by (simp add: capture_frame_alt)
next
  fix n
  let ?d1 = "snd (triggerAcquisition lib (dev s))"
  let ?s1 = "s\<lparr>dev := ?d1, trace := trace s @ [TriggerAcquisition]\<rparr>"
  assume a: "frames_at lib n ?d1 \<noteq> 0 \<and> (\<forall>m<n. frames_at lib m ?d1 = 0)"
  have "poll lib 0 ?s1 =
          Some (?s1\<lparr>dev := device_after lib (Suc n) (dev ?s1), trace := trace ?s1 @ polls (Suc n)\<rparr>)"
    using a by (intro poll_found) simp_all
  then show "\<exists>frame d'. capture_frame lib s =
             Some (Inr frame,
                   s\<lparr>dev := d',
                     trace := trace s @ [TriggerAcquisition] @ polls (Suc n) @ [GetFrame 3694 65535]\<rparr>)
           \<and> length frame = 3694"
    by (simp add: capture_frame_alt length_ctypes_buffer del: device_after.simps) blast
qed

lemma frames_at_mock:
  "frames_at mock_lib n d = (if m_busy d \<le> n then 1 else 0)"
  unfolding frames_at_def
  by (induction n arbitrary: d) (auto simp: mock_lib_def)

theorem capture_frame_polls_witness:
  "frames_at mock_lib 2 (snd (triggerAcquisition mock_lib (dev (new_session slow_device)))) \<noteq> 0 \<and>
   frames_at mock_lib 0 (snd (triggerAcquisition mock_lib (dev (new_session slow_device)))) = 0 \<and>
   frames_at mock_lib 1 (snd (triggerAcquisition mock_lib (dev (new_session slow_device)))) = 0 \<and>
   (\<exists>frame d'. capture_frame mock_lib (new_session slow_device) =
        Some (Inr frame,
              new_session slow_device\<lparr>dev := d',
                trace := [TriggerAcquisition, Sleep 25, GetStatus, Sleep 25, GetStatus,
                          Sleep 25, GetStatus, GetFrame 3694 65535]\<rparr>)
      \<and> length frame = 3694)"
proof -
  let ?d = "snd (triggerAcquisition mock_lib (dev (new_session slow_device)))"
  have d: "m_busy ?d = 2" by (simp add: mock_lib_def new_session_def slow_device_def)
  have h: "frames_at mock_lib 2 ?d \<noteq> 0 \<and> (\<forall>m<2. frames_at mock_lib m ?d = 0)"
    by (simp add: frames_at_mock d)
  have t: "trace (new_session slow_device) = []" by (simp add: new_session_def)
  have p: "polls (Suc 2) = [Sleep 25, GetStatus, Sleep 25, GetStatus, Sleep 25, GetStatus]"
    by (simp add: polls_def numeral_2_eq_2)
  from capture_frame_polls[of mock_lib "new_session slow_device", THEN conjunct2, rule_format, OF h]
  have "\<exists>frame d'. capture_frame mock_lib (new_session slow_device) =
        Some (Inr frame,
              new_session slow_device\<lparr>dev := d',
                trace := [TriggerAcquisition, Sleep 25, GetStatus, Sleep 25, GetStatus,
                          Sleep 25, GetStatus, GetFrame 3694 65535]\<rparr>)
      \<and> length frame = 3694"
    by (simp only: t p append_Nil append_Cons)
  moreover have "frames_at mock_lib 0 ?d = 0" "frames_at mock_lib 1 ?d = 0"
    by (simp_all add: frames_at_mock d)
  ultimately show ?thesis using h by blast
qed

lemma device_after_mock: "device_after mock_lib n d = d\<lparr>m_busy := m_busy d - n\<rparr>"
  by (induction n arbitrary: d) (simp_all add: mock_lib_def)

lemma capture_frame_mock:
  "capture_frame mock_lib s =
     Some (Inr (ctypes_buffer 3694 (take 65535 (m_frame (dev s)))),
           s\<lparr>dev := (dev s)\<lparr>m_busy := 0, m_max_len := Some 65535\<rparr>,
             trace := trace s @ [TriggerAcquisition] @ polls (Suc (m_busy (dev s))) @ [GetFrame 3694 65535]\<rparr>)"
proof -
  let ?s1 = "s\<lparr>dev := snd (triggerAcquisition mock_lib (dev s)), trace := trace s @ [TriggerAcquisition]\<rparr>"
  have d1: "dev ?s1 = dev s" by (simp add: mock_lib_def)
  have "poll mock_lib 0 ?s1 =
          Some (?s1\<lparr>dev := device_after mock_lib (Suc (m_busy (dev s))) (dev ?s1),
                    trace := trace ?s1 @ polls (Suc (m_busy (dev s)))\<rparr>)"
    by (rule poll_found) (simp_all only: d1 frames_at_mock, simp_all)
  then show ?thesis
    by (simp add: capture_frame_alt device_after_mock d1 del: device_after.simps) (simp add: mock_lib_def)
qed

text \<open>
  Claim C10. The buffer \<^verbatim>\<open>capture_frame\<close> hands to \<^verbatim>\<open>getFrame\<close> has 3694 elements, and the
  bound it passes with it is 65535, not 3694: the frame a capture returns and the device it
  leaves are what the driver's \<^verbatim>\<open>getFrame\<close> answers to the bound 65535 on the device the
  polling loop ended with, read back through a buffer of 3694 elements.
\<close>

theorem capture_frame_max_len:
  "capture_frame lib s = Some (r, s') \<Longrightarrow>
     \<exists>s2. poll lib 0 (s\<lparr>dev := snd (triggerAcquisition lib (dev s)),
                            trace := trace s @ [TriggerAcquisition]\<rparr>) = Some s2 \<and>
          r = Inr (ctypes_buffer 3694 (snd (fst (getFrame lib 65535 (dev s2))))) \<and>
          s' = s2\<lparr>dev := snd (getFrame lib 65535 (dev s2)),
                   trace := trace s2 @ [GetFrame 3694 65535]\<rparr> \<and>
          length (ctypes_buffer 3694 (snd (fst (getFrame lib 65535 (dev s2))))) = 3694 \<and>
          (3694 :: nat) < unat (65535 :: 16 word)"
  by (cases "poll lib 0 (s\<lparr>dev := snd (triggerAcquisition lib (dev s)),
                            trace := trace s @ [TriggerAcquisition]\<rparr>)")
     (simp_all add: capture_frame_alt length_ctypes_buffer)

theorem capture_frame_max_len_witness:
  "capture_frame mock_lib (new_session slow_device) =
     Some (Inr (replicate 3694 1000),
           new_session slow_device\<lparr>dev := slow_device\<lparr>m_busy := 0, m_max_len := Some 65535\<rparr>,
             trace := [TriggerAcquisition] @ polls 3 @ [GetFrame 3694 65535]\<rparr>) \<and>
   m_max_len (dev (new_session slow_device)) = None \<and>
   m_max_len (dev (new_session slow_device\<lparr>dev := slow_device\<lparr>m_busy := 0, m_max_len := Some 65535\<rparr>,
             trace := [TriggerAcquisition] @ polls 3 @ [GetFrame 3694 65535]\<rparr>)) = Some 65535 \<and>
   length (replicate 3694 (1000 :: 16 word)) = 3694 \<and>
   (3694 :: nat) < unat (65535 :: 16 word)"
proof -
  let ?s' = "new_session slow_device\<lparr>dev := slow_device\<lparr>m_busy := 0, m_max_len := Some 65535\<rparr>,
             trace := [TriggerAcquisition] @ polls 3 @ [GetFrame 3694 65535]\<rparr>"
  have c: "capture_frame mock_lib (new_session slow_device) = Some (Inr (replicate 3694 1000), ?s')"
    by (simp add: capture_frame_mock ctypes_buffer_def new_session_def slow_device_def numeral_3_eq_3)
  from capture_frame_max_len[OF c] obtain s2 where
    s': "?s' = s2\<lparr>dev := snd (getFrame mock_lib 65535 (dev s2)),
                    trace := trace s2 @ [GetFrame 3694 65535]\<rparr>"
    and b: "(3694 :: nat) < unat (65535 :: 16 word)"
    by blast
  have "m_max_len (dev (s2\<lparr>dev := snd (getFrame mock_lib 65535 (dev s2)),
                    trace := trace s2 @ [GetFrame 3694 65535]\<rparr>)) = Some 65535"
    by (simp add: mock_lib_def)
  then have "m_max_len (dev ?s') = Some 65535" by (simp only: s'[symmetric])
  moreover have "m_max_len (dev (new_session slow_device)) = None"
    by (simp add: new_session_def slow_device_def)
  ultimately show ?thesis using c b by simp
qed

text \<open>
  Claim C1 says that a nonzero status of any device primitive raises an error. Take a
  device that accepts the connection, so that \<^verbatim>\<open>__init__\<close> succeeds, and then answers every
  command with status 1. On the session \<^verbatim>\<open>__init__\<close> returns, \<^verbatim>\<open>read_flash\<close> raises, but
  \<^verbatim>\<open>configure_acquisition\<close> returns normally and \<^verbatim>\<open>capture_frame\<close> returns a frame of zeros.
\<close>

theorem status_ignored_by_acquisition:
  "fst (init mock_lib faulty_device) = Inr () \<and>
   fst (setAcquisitionParameters mock_lib 1 0 3 1000 faulty_device) = 1 \<and>
   fst (fst (setFrameFormat mock_lib 0 3647 0 faulty_device)) = 1 \<and>
   fst (triggerAcquisition mock_lib faulty_device) = 1 \<and>
   fst (fst (getStatus mock_lib faulty_device)) = 1 \<and>
   fst (fst (getFrame mock_lib 65535 faulty_device)) = 1 \<and>
   fst (configure_acquisition mock_lib (snd (init mock_lib faulty_device))) = Inr () \<and>
   map_option fst (capture_frame mock_lib (snd (init mock_lib faulty_device)))
     = Some (Inr (replicate 3694 0)) \<and>
   fst (read_flash mock_lib 0 1000 (snd (init mock_lib faulty_device))) = Inl (RuntimeError 1)"
proof -
  have i: "init mock_lib faulty_device = (Inr (), (new_session faulty_device)\<lparr>trace := [ConnectToDevice]\<rparr>)"
    by (simp add: init_def connect_def mock_lib_def new_session_def faulty_device_def)
  have d: "dev ((new_session faulty_device)\<lparr>trace := [ConnectToDevice]\<rparr>) = faulty_device"
    by (simp add: new_session_def)
  have st: "fst (setAcquisitionParameters mock_lib 1 0 3 1000 faulty_device) = 1"
    "fst (fst (setFrameFormat mock_lib 0 3647 0 faulty_device)) = 1"
    "fst (triggerAcquisition mock_lib faulty_device) = 1"
    "fst (fst (getStatus mock_lib faulty_device)) = 1"
    "fst (fst (getFrame mock_lib 65535 faulty_device)) = 1"
    by (simp_all add: mock_lib_def faulty_device_def)
  have c: "fst (configure_acquisition mock_lib (snd (init mock_lib faulty_device))) = Inr ()"
    by (simp add: configure_acquisition_def split_beta Let_def)
  have f: "map_option fst (capture_frame mock_lib (snd (init mock_lib faulty_device)))
             = Some (Inr (replicate 3694 0))"
    unfolding i snd_conv capture_frame_mock d
    by (simp add: ctypes_buffer_def faulty_device_def)
  have r: "fst (read_flash mock_lib 0 1000 (snd (init mock_lib faulty_device))) = Inl (RuntimeError 1)"
    unfolding i snd_conv read_flash_def d
    by (simp add: mock_lib_def faulty_device_def)
  show ?thesis using i st c f r by simp
qed

section \<open>Properties of the numeric pipeline\<close>

lemma poll_effect:
  "poll lib f s = Some s' \<Longrightarrow> \<exists>d n. s' = s\<lparr>dev := d, trace := trace s @ polls n\<rparr>"
proof (induction rule: poll.raw_induct[rotated 1, consumes 1])
  case (1 poll' lib f s s')
  show ?case
  proof (cases "f = 0")
    case True
    let ?s1 = "s\<lparr>dev := snd (getStatus lib (dev s)), trace := trace s @ [Sleep 25, GetStatus]\<rparr>"
    from 1(2) True
    have "poll' lib (snd (snd (fst (getStatus lib (dev s))))) ?s1 = Some s'" by simp
    from 1(1)[OF this] obtain d n where "s' = ?s1\<lparr>dev := d, trace := trace ?s1 @ polls n\<rparr>"
      by blast
    then have "s' = s\<lparr>dev := d, trace := trace s @ polls (Suc n)\<rparr>"
      by (simp add: polls_def)
    then show ?thesis by blast
  next
    case False
    with 1(2) have "s' = s\<lparr>dev := dev s, trace := trace s @ polls 0\<rparr>"
      by (simp add: polls_def)
    then show ?thesis by blast
  qed
qed

lemma capture_frame_effect:
  assumes "capture_frame lib s = Some (r, s')"
  shows "\<exists>frame d n. r = Inr frame \<and> length frame = 3694 \<and>
           s' = s\<lparr>dev := d, trace := trace s @ [TriggerAcquisition] @ polls n @ [GetFrame 3694 65535]\<rparr>"
proof -
  let ?s1 = "s\<lparr>dev := snd (triggerAcquisition lib (dev s)), trace := trace s @ [TriggerAcquisition]\<rparr>"
  obtain s2 where p: "poll lib 0 ?s1 = Some s2"
    using assms unfolding capture_frame_alt by (cases "poll lib 0 ?s1") simp_all
  from poll_effect[OF p] obtain d n where
    s2: "s2 = ?s1\<lparr>dev := d, trace := trace ?s1 @ polls n\<rparr>" by blast
  from assms have r: "r = Inr (ctypes_buffer 3694 (snd (fst (getFrame lib 65535 (dev s2)))))"
    and s': "s' = s2\<lparr>dev := snd (getFrame lib 65535 (dev s2)), trace := trace s2 @ [GetFrame 3694 65535]\<rparr>"
    unfolding capture_frame_alt p by simp_all
  have "s' = s\<lparr>dev := snd (getFrame lib 65535 (dev s2)),
               trace := trace s @ [TriggerAcquisition] @ polls n @ [GetFrame 3694 65535]\<rparr>"
    unfolding s' s2 by simp
  moreover have "length (ctypes_buffer 3694 (snd (fst (getFrame lib 65535 (dev s2))))) = 3694"
    by (rule length_ctypes_buffer)
  ultimately show ?thesis using r by blast
qed

lemma triggers_Nil: "triggers [] = 0"
  by (simp add: triggers_def)

lemma triggers_Cons: "triggers (c # t) = (if c = TriggerAcquisition then 1 else 0) + triggers t"
  by (simp add: triggers_def)

lemma triggers_polls: "triggers (polls n) = 0"
  by (induction n) (simp_all add: polls_def triggers_def)

lemma reads_polls: "filter is_ReadFlash (polls n) = []"
  by (induction n) (simp_all add: polls_def)

lemma triggers_append: "triggers (a @ b) = triggers a + triggers b"
  by (simp add: triggers_def)

lemma capture_frame_triggers:
  "capture_frame lib s = Some (r, s') \<Longrightarrow> triggers (trace s') = Suc (triggers (trace s))"
  by (drule capture_frame_effect)
     (auto simp: triggers_append triggers_polls triggers_Cons triggers_Nil)

lemma slice_nth:
  assumes "i \<le> j" "j \<le> length xs"
  shows "map f (slice i j xs) = map (\<lambda>k. f (xs ! (i + k))) [0..<j - i]"
  using assms by (intro nth_equalityI) (simp_all add: slice_def)

lemma sum_list_slice:
  assumes "i \<le> j" "j \<le> length xs"
  shows "sum_list (map f (slice i j xs)) = (\<Sum>k = i..<j. f (xs ! k))"
proof -
  have "sum_list (map f (slice i j xs)) = (\<Sum>k = 0..<j - i. f (xs ! (k + i)))"
    by (simp only: slice_nth[OF assms] interv_sum_list_conv_sum_set_nat) (simp add: add.commute)
  also have "\<dots> = (\<Sum>k = 0 + i..<(j - i) + i. f (xs ! k))"
    by (rule sum.shift_bounds_nat_ivl[symmetric])
  finally show ?thesis using assms by simp
qed

text \<open>
  Claim C5. On the frame that \<^verbatim>\<open>capture_frame\<close> returns, always of 3694 samples,
  \<^verbatim>\<open>subtract_background\<close> returns 3653 values: sample \<open>32 + i\<close> minus the background, which is
  the half sum of the mean of the 16 samples 15..30 and the mean of the 6 samples 3686..3691.
\<close>

theorem subtract_background_formula:
  assumes "capture_frame lib s = Some (Inr frame, s')"
  shows "length frame = 3694 \<and>
         (\<exists>corrected. subtract_background lib s = Some (Inr corrected, s') \<and>
            length corrected = 3653 \<and>
            (\<forall>i<3653. corrected ! i =
               sample (frame ! (32 + i))
               - ((\<Sum>j = 15..<31. sample (frame ! j)) / 16
                  + (\<Sum>j = 3686..<3692. sample (frame ! j)) / 6) / 2))"
proof -
  from capture_frame_effect[OF assms] have len: "length frame = 3694" by auto
  have l1: "length (slice 15 31 frame) = 16" and l2: "length (slice 3686 3692 frame) = 6"
    and l3: "length (slice 32 3685 frame) = 3653"
    by (simp_all add: slice_def len)
  have s1: "sum_list (map sample (slice 15 31 frame)) = (\<Sum>j = 15..<31. sample (frame ! j))"
    by (rule sum_list_slice) (simp_all add: len)
  have s2: "sum_list (map sample (slice 3686 3692 frame)) = (\<Sum>j = 3686..<3692. sample (frame ! j))"
    by (rule sum_list_slice) (simp_all add: len)
  have n3: "\<And>i. i < 3653 \<Longrightarrow> slice 32 3685 frame ! i = frame ! (32 + i)"
    by (simp add: slice_def len)
  show ?thesis
    using len by (simp add: subtract_background_def assms np_mean_def l1 l2 l3 s1 s2 n3 Let_def)
qed


lemma loop_stop:
  "\<not> (offset \<le> MAX_SIZE \<and> \<not> found) \<Longrightarrow>
     read_calibration_loop lib offset found acc s = (Inr acc, s)"
  by (subst read_calibration_loop.simps) auto

lemma loop_step:
  "offset \<le> MAX_SIZE \<and> \<not> found \<Longrightarrow>
     read_calibration_loop lib offset found acc s =
       (case read_flash lib offset CHUNK_SIZE s of
          (Inl e, s') \<Rightarrow> (Inl e, s')
        | (Inr data, s') \<Rightarrow>
            (case bytes_find data marker of
               Some stop_index \<Rightarrow>
                 read_calibration_loop lib (offset + CHUNK_SIZE) True (acc @ take stop_index data) s'
             | None \<Rightarrow>
                 read_calibration_loop lib (offset + CHUNK_SIZE) False (acc @ data) s'))"
  by (subst read_calibration_loop.simps) auto




lemma subtract_background_effect:
  assumes "subtract_background lib s = Some (r, s')"
  shows "\<exists>corrected d t. r = Inr corrected \<and> length corrected = 3653 \<and>
           capture_frame lib s \<noteq> None \<and>
           s' = s\<lparr>dev := d, trace := trace s @ t\<rparr> \<and> triggers t = 1 \<and> filter is_ReadFlash t = []"
proof -
  from assms obtain r0 where c: "capture_frame lib s = Some (r0, s')"
    by (auto simp: subtract_background_def Let_def split: option.splits sum.splits)
  from capture_frame_effect[OF c] obtain frame d n where
    f: "r0 = Inr frame" "length frame = 3694"
    "s' = s\<lparr>dev := d, trace := trace s @ [TriggerAcquisition] @ polls n @ [GetFrame 3694 65535]\<rparr>"
    by blast
  have "triggers ([TriggerAcquisition] @ polls n @ [GetFrame 3694 65535]) = 1"
    by (simp add: triggers_append triggers_polls triggers_Cons triggers_Nil)
  moreover have "filter is_ReadFlash ([TriggerAcquisition] @ polls n @ [GetFrame 3694 65535]) = []"
    by (simp add: reads_polls)
  moreover from assms c f have "\<exists>corrected. r = Inr corrected \<and> length corrected = 3653"
    by (auto simp: subtract_background_def Let_def slice_def)
  ultimately show ?thesis using f(3) c by blast
qed






lemma subtract_background_mock_1000:
  assumes "m_frame (dev s) = replicate 3694 1000"
  shows "subtract_background mock_lib s =
     Some (Inr (replicate 3653 0),
           s\<lparr>dev := (dev s)\<lparr>m_busy := 0, m_max_len := Some 65535\<rparr>,
             trace := trace s @ [TriggerAcquisition] @ polls (Suc (m_busy (dev s))) @ [GetFrame 3694 65535]\<rparr>)"
proof -
  have c: "capture_frame mock_lib s =
     Some (Inr (replicate 3694 1000),
           s\<lparr>dev := (dev s)\<lparr>m_busy := 0, m_max_len := Some 65535\<rparr>,
             trace := trace s @ [TriggerAcquisition] @ polls (Suc (m_busy (dev s))) @ [GetFrame 3694 65535]\<rparr>)"
    by (simp add: capture_frame_mock ctypes_buffer_def assms)
  have sl: "slice 15 31 (replicate 3694 (1000 :: 16 word)) = replicate 16 1000"
    "slice 3686 3692 (replicate 3694 (1000 :: 16 word)) = replicate 6 1000"
    "slice 32 3685 (replicate 3694 (1000 :: 16 word)) = replicate 3653 1000"
    by (simp_all add: slice_def)
  have sa: "sample 1000 = 1000" by (simp add: sample_def)
  have m: "np_mean (map sample (replicate 16 1000)) = 1000"
          "np_mean (map sample (replicate 6 1000)) = 1000"
    by (simp_all add: np_mean_def sa sum_list_replicate)
  have "map (\<lambda>x. sample x - (1000 + 1000) / 2) (replicate 3653 1000) = replicate 3653 0"
    by (simp add: sa)
  then show ?thesis
    unfolding subtract_background_def c by (simp only: option.case prod.case sum.case sl m Let_def)
qed



theorem subtract_background_formula_witness:
  "capture_frame mock_lib (new_session slow_device) =
     Some (Inr (replicate 3694 1000),
           new_session slow_device\<lparr>dev := slow_device\<lparr>m_busy := 0, m_max_len := Some 65535\<rparr>,
             trace := [TriggerAcquisition] @ polls 3 @ [GetFrame 3694 65535]\<rparr>) \<and>
   subtract_background mock_lib (new_session slow_device) =
     Some (Inr (replicate 3653 0),
           new_session slow_device\<lparr>dev := slow_device\<lparr>m_busy := 0, m_max_len := Some 65535\<rparr>,
             trace := [TriggerAcquisition] @ polls 3 @ [GetFrame 3694 65535]\<rparr>)"
proof -
  let ?s' = "new_session slow_device\<lparr>dev := slow_device\<lparr>m_busy := 0, m_max_len := Some 65535\<rparr>,
             trace := [TriggerAcquisition] @ polls 3 @ [GetFrame 3694 65535]\<rparr>"
  have c: "capture_frame mock_lib (new_session slow_device) = Some (Inr (replicate 3694 1000), ?s')"
    by (simp add: capture_frame_mock ctypes_buffer_def new_session_def slow_device_def numeral_3_eq_3)
  from subtract_background_formula[OF c] obtain corrected where
    s: "subtract_background mock_lib (new_session slow_device) = Some (Inr corrected, ?s')" and
    l: "length corrected = 3653" and
    v: "\<forall>i<3653. corrected ! i =
          sample (replicate 3694 1000 ! (32 + i))
          - ((\<Sum>j = 15..<31. sample (replicate 3694 1000 ! j)) / 16
             + (\<Sum>j = 3686..<3692. sample (replicate 3694 1000 ! j)) / 6) / 2"
    by auto
  have a: "(\<Sum>j = 15..<31. sample (replicate 3694 1000 ! j)) = (\<Sum>j = 15..<31::nat. 1000)"
    by (intro sum.cong) (simp_all add: sample_def)
  have b: "(\<Sum>j = 3686..<3692. sample (replicate 3694 1000 ! j)) = (\<Sum>j = 3686..<3692::nat. 1000)"
    by (intro sum.cong) (simp_all add: sample_def)
  have "corrected = replicate 3653 0"
    using l v unfolding a b by (intro nth_equalityI) (simp_all add: sample_def)
  with s c show ?thesis by simp
qed

section \<open>Properties of the calibration cache\<close>

lemma set_parameters_quiet:
  "cached (set_parameters a b c d e f g s) = cached s \<and>
   trace (set_parameters a b c d e f g s) = trace s"
  by (simp add: set_parameters_def cached_def Let_def split: option.split)

lemma configure_quiet:
  "cached (snd (configure_acquisition lib s)) = cached s \<and>
   filter is_ReadFlash (trace (snd (configure_acquisition lib s))) = filter is_ReadFlash (trace s)"
  by (simp add: configure_acquisition_def cached_def Let_def split_beta)

lemma capture_quiet:
  assumes "capture_frame lib s = Some (r, s')"
  shows "cached s' = cached s \<and> filter is_ReadFlash (trace s') = filter is_ReadFlash (trace s)"
proof -
  from capture_frame_effect[OF assms] obtain d n where
    "s' = s\<lparr>dev := d, trace := trace s @ [TriggerAcquisition] @ polls n @ [GetFrame 3694 65535]\<rparr>"
    by blast
  then show ?thesis by (simp add: cached_def reads_polls)
qed

lemma subtract_quiet:
  assumes "subtract_background lib s = Some (r, s')"
  shows "cached s' = cached s \<and> filter is_ReadFlash (trace s') = filter is_ReadFlash (trace s)"
proof -
  from subtract_background_effect[OF assms] obtain d t where
    "s' = s\<lparr>dev := d, trace := trace s @ t\<rparr>" "filter is_ReadFlash t = []"
    by blast
  then show ?thesis by (simp add: cached_def)
qed

lemma normalize_quiet:
  assumes "calibration_data_loaded s" "normalize_spectrum P lib s = Some (r, s')"
  shows "cached s' = cached s \<and> filter is_ReadFlash (trace s') = filter is_ReadFlash (trace s)"
proof -
  from assms obtain r0 where "subtract_background lib s = Some (r0, s')"
    unfolding normalize_spectrum_def
    by (cases "subtract_background lib s") (auto split: sum.splits option.splits)
  then show ?thesis by (rule subtract_quiet)
qed

lemma calibrated_quiet:
  assumes "calibration_data_loaded s" "get_calibrated_spectrum P lib s = Some (r, s')"
  shows "cached s' = cached s \<and> filter is_ReadFlash (trace s') = filter is_ReadFlash (trace s)"
proof -
  from assms(2) obtain r0 where "normalize_spectrum P lib s = Some (r0, s')"
    unfolding get_calibrated_spectrum_def
    by (cases "normalize_spectrum P lib s") (auto split: sum.splits option.splits prod.splits)
  with assms(1) show ?thesis by (rule normalize_quiet)
qed

lemma step_quiet:
  assumes "calibration_data_loaded s" "step P lib c s = Some s'"
  shows "cached s' = cached s \<and> filter is_ReadFlash (trace s') = filter is_ReadFlash (trace s)"
proof (cases c)
  case (Set_parameters a b c d e f g)
  with assms(2) have "s' = set_parameters a b c d e f g s" by simp
  then show ?thesis using set_parameters_quiet[of a b c d e f g s] by simp
next
  case Configure_acquisition
  with assms(2) have "s' = snd (configure_acquisition lib s)" by simp
  then show ?thesis using configure_quiet[of lib s] by simp
next
  case Capture_frame
  with assms(2) obtain r where "capture_frame lib s = Some (r, s')" by auto
  then show ?thesis by (rule capture_quiet)
next
  case Get_spectrum
  with assms(2) obtain r where "capture_frame lib s = Some (r, s')"
    by (auto simp: get_spectrum_def)
  then show ?thesis by (rule capture_quiet)
next
  case Subtract_background
  with assms(2) obtain r where "subtract_background lib s = Some (r, s')" by auto
  then show ?thesis by (rule subtract_quiet)
next
  case Load_calibration_data
  with assms have "s' = s" by (simp add: load_calibration_data_def)
  then show ?thesis by simp
next
  case Normalize_spectrum
  with assms(2) obtain r where "normalize_spectrum P lib s = Some (r, s')" by auto
  with assms(1) show ?thesis by (rule normalize_quiet)
next
  case Get_calibrated_spectrum
  with assms(2) obtain r where "get_calibrated_spectrum P lib s = Some (r, s')" by auto
  with assms(1) show ?thesis by (rule calibrated_quiet)
qed

lemma run_quiet:
  "calibration_data_loaded s \<Longrightarrow> run P lib cs s = Some s' \<Longrightarrow>
     cached s' = cached s \<and> filter is_ReadFlash (trace s') = filter is_ReadFlash (trace s)"
proof (induction cs arbitrary: s)
  case Nil
  then show ?case by simp
next
  case (Cons c cs)
  from Cons.prems(2) obtain s1 where s1: "step P lib c s = Some s1" "run P lib cs s1 = Some s'"
    by (cases "step P lib c s") simp_all
  from step_quiet[OF Cons.prems(1) s1(1)]
  have q: "cached s1 = cached s" "filter is_ReadFlash (trace s1) = filter is_ReadFlash (trace s)"
    by simp_all
  then have "calibration_data_loaded s1" using Cons.prems(1) by (simp add: cached_def)
  from Cons.IH[OF this s1(2)] q show ?case by simp
qed

lemma load_loaded:
  "fst (load_calibration_data P lib s0) = Inr () \<longrightarrow>
     calibration_data_loaded (snd (load_calibration_data P lib s0))"
  by (simp add: load_calibration_data_def Let_def split: prod.split sum.split option.split)

lemma poll_transfer:
  "poll lib' f s = Some y \<Longrightarrow> getStatus lib' = getStatus lib \<longrightarrow> poll lib f s = Some y"
proof (induction rule: poll.raw_induct[rotated 1, consumes 1])
  case (1 poll' l f s y)
  show ?case
  proof (rule impI)
    assume eq: "getStatus l = getStatus lib"
    show "poll lib f s = Some y"
    proof (cases "f = 0")
      case True
      let ?s1 = "s\<lparr>dev := snd (getStatus l (dev s)), trace := trace s @ [Sleep 25, GetStatus]\<rparr>"
      from 1(2) True
      have "poll' l (snd (snd (fst (getStatus l (dev s))))) ?s1 = Some y" by simp
      from 1(1)[OF this] eq
      have "poll lib (snd (snd (fst (getStatus l (dev s))))) ?s1 = Some y" by simp
      then show ?thesis
        using True by (subst poll.simps) (simp add: eq)
    next
      case False
      with 1(2) have "y = s" by simp
      then show ?thesis using False by (subst poll.simps) simp
    qed
  qed
qed

lemma poll_indep:
  assumes "getStatus lib' = getStatus lib"
  shows "poll lib' f s = poll lib f s"
proof (cases "poll lib' f s")
  case (Some y)
  with poll_transfer[of lib' f s y lib] assms show ?thesis by simp
next
  case None
  show ?thesis
  proof (cases "poll lib f s")
    case None
    with \<open>poll lib' f s = None\<close> show ?thesis by simp
  next
    case (Some y)
    with poll_transfer[of lib f s y lib'] assms have "poll lib' f s = Some y" by simp
    with None show ?thesis by simp
  qed
qed

lemma capture_frame_indep:
  "capture_frame (lib\<lparr>readFlash := rf\<rparr>) s = capture_frame lib s"
proof -
  have "poll (lib\<lparr>readFlash := rf\<rparr>) 0
          (s\<lparr>dev := snd (triggerAcquisition lib (dev s)), trace := trace s @ [TriggerAcquisition]\<rparr>)
        = poll lib 0
          (s\<lparr>dev := snd (triggerAcquisition lib (dev s)), trace := trace s @ [TriggerAcquisition]\<rparr>)"
    by (rule poll_indep) simp
  then show ?thesis by (simp add: capture_frame_alt split: option.split)
qed

lemma subtract_background_indep:
  "subtract_background (lib\<lparr>readFlash := rf\<rparr>) s = subtract_background lib s"
  by (simp add: subtract_background_def capture_frame_indep)

lemma normalize_indep:
  "calibration_data_loaded s \<Longrightarrow>
     normalize_spectrum P' (lib\<lparr>readFlash := rf\<rparr>) s = normalize_spectrum P lib s"
  by (simp add: normalize_spectrum_def subtract_background_indep)

lemma calibrated_indep:
  "calibration_data_loaded s \<Longrightarrow>
     get_calibrated_spectrum P' (lib\<lparr>readFlash := rf\<rparr>) s = get_calibrated_spectrum P lib s"
  by (simp add: get_calibrated_spectrum_def normalize_indep[where P = P and P' = P'])

lemma step_indep:
  assumes "calibration_data_loaded s"
  shows "step P' (lib\<lparr>readFlash := rf\<rparr>) c s = step P lib c s"
proof (cases c)
  case (Set_parameters a b c d e f g)
  then show ?thesis by simp
next
  case Configure_acquisition
  then show ?thesis by (simp add: configure_acquisition_def)
next
  case Capture_frame
  then show ?thesis by (simp add: capture_frame_indep)
next
  case Get_spectrum
  then show ?thesis by (simp add: get_spectrum_def capture_frame_indep)
next
  case Subtract_background
  then show ?thesis by (simp add: subtract_background_indep)
next
  case Load_calibration_data
  then show ?thesis using assms by (simp add: load_calibration_data_def)
next
  case Normalize_spectrum
  then show ?thesis using normalize_indep[OF assms, where P = P and P' = P'] by simp
next
  case Get_calibrated_spectrum
  then show ?thesis using calibrated_indep[OF assms, where P = P and P' = P'] by simp
qed

lemma run_indep:
  "calibration_data_loaded s \<Longrightarrow> run P' (lib\<lparr>readFlash := rf\<rparr>) cs s = run P lib cs s"
proof (induction cs arbitrary: s)
  case Nil
  then show ?case by simp
next
  case (Cons c cs)
  note st = step_indep[OF Cons.prems, where P = P and P' = P' and lib = lib and rf = rf and c = c]
  show ?case
  proof (cases "step P lib c s")
    case None
    with st show ?thesis by simp
  next
    case (Some s1)
    from step_quiet[OF Cons.prems Some] Cons.prems have "calibration_data_loaded s1"
      by (simp add: cached_def)
    from Cons.IH[OF this] st Some show ?thesis by simp
  qed
qed

text \<open>
  Claim C7. After one successful load the flag is set, a further load returns at once and
  leaves the session as it is, and no sequence of later calls of the methods of the class
  (the two that read the flash directly apart) reads the flash again or changes the cached
  \<open>bck_aT\<close>, \<open>wavelength\<close>, \<open>norm_coef\<close> and \<open>power_coef\<close>. The session these calls end in
  is the same whatever the driver's \<^verbatim>\<open>readFlash\<close> and the two conversions would answer, so
  neither is consulted again, even if the flash contents have changed.
\<close>

theorem calibration_memoized:
  assumes "load_calibration_data P lib s0 = (Inr (), s)" and "run P lib cs s = Some s'"
  shows "calibration_data_loaded s \<and> load_calibration_data P lib s = (Inr (), s) \<and>
         cached s' = cached s \<and>
         filter is_ReadFlash (trace s') = filter is_ReadFlash (trace s) \<and>
         (\<forall>P' rf. run P' (lib\<lparr>readFlash := rf\<rparr>) cs s = Some s')"
proof -
  have l: "calibration_data_loaded s" using assms(1) load_loaded[of P lib s0] by simp
  then have "load_calibration_data P lib s = (Inr (), s)" by (simp add: load_calibration_data_def)
  moreover have "\<forall>P' rf. run P' (lib\<lparr>readFlash := rf\<rparr>) cs s = Some s'"
    using run_indep[OF l, where P = P and lib = lib and cs = cs] assms(2) by simp
  ultimately show ?thesis using l run_quiet[OF l assms(2)] by simp
qed

lemma digits_float_1: "digits_float [49] = Some 1"
  by (simp add: digits_float_def)

lemma read_calibration_file_short:
  "read_calibration_file mock_lib (new_session short_device) =
     (Inr [48, 10, 49],
      (new_session short_device)\<lparr>dev := short_device\<lparr>m_reads := [(0, 1000)]\<rparr>,
                                  trace := [ReadFlash 0 1000]\<rparr>)"
proof -
  let ?s1 = "(new_session short_device)\<lparr>dev := short_device\<lparr>m_reads := [(0, 1000)]\<rparr>,
                                  trace := [ReadFlash 0 1000]\<rparr>"
  have rf: "read_flash mock_lib 0 1000 (new_session short_device) =
          (Inr ([48, 10, 49, 0xFF, 0xFF] @ replicate 995 0), ?s1)"
    by (simp add: read_flash_def mock_lib_def new_session_def short_device_def ctypes_buffer_def)
  have "read_calibration_loop mock_lib 0 False [] (new_session short_device)
          = read_calibration_loop mock_lib (0 + 1000) True ([] @ take 3 ([48, 10, 49, 0xFF, 0xFF] @ replicate 995 0)) ?s1"
    by (subst loop_step) (simp_all add: rf)
  also have "\<dots> = (Inr ([] @ take 3 ([48, 10, 49, 0xFF, 0xFF] @ replicate 995 0)), ?s1)"
    by (rule loop_stop) simp
  finally show ?thesis
    unfolding read_calibration_file_def by simp
qed

lemma load_short:
  "load_calibration_data digit_parsers mock_lib (new_session short_device) = (Inr (), short_loaded)"
proof -
  have u: "utf8_decode [48, 10, 49] = Some [48, 10, 49]" by simp
  have sl: "splitlines [48, 10, 49] = [[48], [49]]" by (simp add: splitlines_def linebreak_def)
  have nl: "\<not> calibration_data_loaded (new_session short_device)" by (simp add: new_session_def)
  show ?thesis
    unfolding load_calibration_data_def
    by (simp add: nl read_calibration_file_short u sl digit_parsers_def digits_float_1 slice_def
          np_array_def)
       (simp add: short_loaded_def new_session_def)
qed

theorem calibration_memoized_witness:
  "load_calibration_data digit_parsers mock_lib (new_session short_device) = (Inr (), short_loaded) \<and>
   run digit_parsers mock_lib [Get_calibrated_spectrum, Load_calibration_data] short_loaded =
     Some (short_loaded\<lparr>dev := short_device\<lparr>m_busy := 0, m_max_len := Some 65535,
                                                    m_reads := [(0, 1000)]\<rparr>,
             trace := [ReadFlash 0 1000, TriggerAcquisition, Sleep 25, GetStatus, GetFrame 3694 65535]\<rparr>) \<and>
   calibration_data_loaded short_loaded \<and>
   cached (short_loaded\<lparr>dev := short_device\<lparr>m_busy := 0, m_max_len := Some 65535,
                                                    m_reads := [(0, 1000)]\<rparr>,
             trace := [ReadFlash 0 1000, TriggerAcquisition, Sleep 25, GetStatus, GetFrame 3694 65535]\<rparr>)
     = cached short_loaded \<and>
   filter is_ReadFlash [ReadFlash 0 1000, TriggerAcquisition, Sleep 25, GetStatus, GetFrame 3694 65535]
     = filter is_ReadFlash (trace short_loaded) \<and>
   run \<lparr>py_float = (\<lambda>t. None), np_float = (\<lambda>t. None)\<rparr>
       (mock_lib\<lparr>readFlash := (\<lambda>offset sz d. ((1, []), d\<lparr>m_flash := [], m_reads := []\<rparr>))\<rparr>)
       [Get_calibrated_spectrum, Load_calibration_data] short_loaded =
     Some (short_loaded\<lparr>dev := short_device\<lparr>m_busy := 0, m_max_len := Some 65535,
                                                    m_reads := [(0, 1000)]\<rparr>,
             trace := [ReadFlash 0 1000, TriggerAcquisition, Sleep 25, GetStatus, GetFrame 3694 65535]\<rparr>)"
proof -
  let ?s2 = "short_loaded\<lparr>dev := short_device\<lparr>m_busy := 0, m_max_len := Some 65535,
                                                    m_reads := [(0, 1000)]\<rparr>,
             trace := [ReadFlash 0 1000, TriggerAcquisition, Sleep 25, GetStatus, GetFrame 3694 65535]\<rparr>"
  have d: "dev short_loaded = short_device\<lparr>m_reads := [(0, 1000)]\<rparr>"
    "trace short_loaded = [ReadFlash 0 1000]"
    "calibration_data_loaded short_loaded" "norm_coef short_loaded = Some []"
    by (simp_all add: short_loaded_def new_session_def)
  have f: "m_frame (dev short_loaded) = replicate 3694 1000" "m_busy short_device = 0"
    by (simp_all add: d short_device_def)
  have sb: "subtract_background mock_lib short_loaded = Some (Inr (replicate 3653 0), ?s2)"
    by (simp add: subtract_background_mock_1000[OF f(1)] d f(2) polls_def)
  have n: "normalize_spectrum digit_parsers mock_lib short_loaded = Some (Inl ValueError, ?s2)"
    by (simp add: normalize_spectrum_def d sb np_inplace_def)
  have g: "get_calibrated_spectrum digit_parsers mock_lib short_loaded = Some (Inl ValueError, ?s2)"
    by (simp add: get_calibrated_spectrum_def n)
  have r: "run digit_parsers mock_lib [Get_calibrated_spectrum, Load_calibration_data] short_loaded
             = Some ?s2"
    by (simp add: g load_calibration_data_def d)
  from calibration_memoized[OF load_short r]
  have m: "calibration_data_loaded short_loaded" "cached ?s2 = cached short_loaded"
    "filter is_ReadFlash (trace ?s2) = filter is_ReadFlash (trace short_loaded)"
    "\<forall>P' rf. run P' (mock_lib\<lparr>readFlash := rf\<rparr>)
        [Get_calibrated_spectrum, Load_calibration_data] short_loaded = Some ?s2"
    by blast+
  from m(4) have "run \<lparr>py_float = (\<lambda>t. None), np_float = (\<lambda>t. None)\<rparr>
       (mock_lib\<lparr>readFlash := (\<lambda>offset sz d. ((1, []), d\<lparr>m_flash := [], m_reads := []\<rparr>))\<rparr>)
       [Get_calibrated_spectrum, Load_calibration_data] short_loaded = Some ?s2"
    by blast
  with load_short r m(1,2,3) show ?thesis by simp
qed


section \<open>Properties of the flash reader\<close>

lemma read_flash_chunk:
  assumes "dev s = flash_dev lib d0 j"
  shows "read_flash lib (CHUNK_SIZE * j) CHUNK_SIZE s =
           (if flash_status lib d0 j \<noteq> 0 then Inl (RuntimeError (flash_status lib d0 j))
            else Inr (flash_chunk lib d0 j),
            s\<lparr>dev := flash_dev lib d0 (Suc j),
              trace := trace s @ [ReadFlash (word_of_nat (CHUNK_SIZE * j)) (word_of_nat CHUNK_SIZE)]\<rparr>)"
  unfolding read_flash_def flash_status_def flash_chunk_def flash_dev.simps assms
  by (simp only: split_beta Let_def if_distrib[of "\<lambda>x. (x, _)"] prod.inject)

lemma flash_reads_0: "flash_reads j 0 = []"
  by (simp add: flash_reads_def)

lemma flash_reads_Suc:
  "flash_reads j (Suc n) =
     ReadFlash (word_of_nat (CHUNK_SIZE * j)) (word_of_nat CHUNK_SIZE) # flash_reads (Suc j) n"
proof -
  have "[j..<j + Suc n] = j # [Suc j..<Suc j + n]" by (simp add: upt_conv_Cons)
  then show ?thesis unfolding flash_reads_def by (simp only: list.map)
qed

lemma loop_scan:
  assumes "j \<le> 101" "dev s = flash_dev lib d0 j"
    and "\<And>i. j \<le> i \<Longrightarrow> i < j + reads (map (flash_chunk lib d0) [j..<101]) \<Longrightarrow>
              flash_status lib d0 i = 0"
  shows "read_calibration_loop lib (CHUNK_SIZE * j) False acc s =
           (Inr (acc @ scan (map (flash_chunk lib d0) [j..<101])),
            s\<lparr>dev := flash_dev lib d0 (j + reads (map (flash_chunk lib d0) [j..<101])),
              trace := trace s @ flash_reads j (reads (map (flash_chunk lib d0) [j..<101]))\<rparr>)"
  using assms
proof (induction "101 - j" arbitrary: j acc s)
  case 0
  then have j: "j = 101" by simp
  have "read_calibration_loop lib (CHUNK_SIZE * j) False acc s = (Inr acc, s)"
    by (rule loop_stop) (simp add: j)
  then show ?case using "0.prems"(2) by (simp add: j flash_reads_0)
next
  case (Suc n)
  then have j: "j \<le> 100" by simp
  have up: "[j..<101] = j # [Suc j..<101]" using j by (simp add: upt_conv_Cons)
  let ?c = "flash_chunk lib d0 j"
  let ?rest = "map (flash_chunk lib d0) [Suc j..<101]"
  let ?s1 = "s\<lparr>dev := flash_dev lib d0 (Suc j),
              trace := trace s @ [ReadFlash (word_of_nat (CHUNK_SIZE * j)) (word_of_nat CHUNK_SIZE)]\<rparr>"
  have pos: "0 < reads (map (flash_chunk lib d0) [j..<101])"
    unfolding up by (simp split: option.split)
  have st: "flash_status lib d0 j = 0"
    using Suc.prems(3)[of j] pos by simp
  have rf: "read_flash lib (CHUNK_SIZE * j) CHUNK_SIZE s = (Inr ?c, ?s1)"
    using read_flash_chunk[OF Suc.prems(2)] st by simp
  have cond: "CHUNK_SIZE * j \<le> MAX_SIZE \<and> \<not> False" using j by simp
  show ?case
  proof (cases "bytes_find ?c marker")
    case (Some i)
    have "read_calibration_loop lib (CHUNK_SIZE * j) False acc s =
            read_calibration_loop lib (CHUNK_SIZE * j + CHUNK_SIZE) True (acc @ take i ?c) ?s1"
      by (simp add: loop_step[OF cond] rf Some)
    also have "\<dots> = (Inr (acc @ take i ?c), ?s1)"
      by (rule loop_stop) simp
    finally show ?thesis
      unfolding up by (simp add: Some flash_reads_Suc[of j 0] flash_reads_0)
  next
    case None
    have step: "read_calibration_loop lib (CHUNK_SIZE * j) False acc s =
            read_calibration_loop lib (CHUNK_SIZE * Suc j) False (acc @ ?c) ?s1"
      by (simp add: loop_step[OF cond] rf None add.commute)
    have rd: "reads (map (flash_chunk lib d0) [j..<101]) = Suc (reads ?rest)"
      unfolding up by (simp add: None)
    have IH: "read_calibration_loop lib (CHUNK_SIZE * Suc j) False (acc @ ?c) ?s1 =
           (Inr ((acc @ ?c) @ scan ?rest),
            ?s1\<lparr>dev := flash_dev lib d0 (Suc j + reads ?rest),
              trace := trace ?s1 @ flash_reads (Suc j) (reads ?rest)\<rparr>)"
    proof (rule Suc.hyps(1))
      show "n = 101 - Suc j" using Suc.hyps(2) by simp
      show "Suc j \<le> 101" using j by simp
      show "dev ?s1 = flash_dev lib d0 (Suc j)" by simp
      fix i assume "Suc j \<le> i" "i < Suc j + reads ?rest"
      then show "flash_status lib d0 i = 0"
        using Suc.prems(3)[of i] rd by simp
    qed
    show ?thesis
      unfolding step IH up
      by (simp add: None flash_reads_Suc del: flash_dev.simps)
  qed
qed

lemma scan_found:
  "k < length cs \<Longrightarrow> (\<And>j. j < k \<Longrightarrow> bytes_find (cs ! j) marker = None) \<Longrightarrow>
   bytes_find (cs ! k) marker = Some i \<Longrightarrow>
     scan cs = concat (take k cs) @ take i (cs ! k) \<and> reads cs = Suc k"
proof (induction cs arbitrary: k)
  case Nil
  then show ?case by simp
next
  case (Cons c cs)
  show ?case
  proof (cases k)
    case 0
    with Cons.prems(3) show ?thesis by simp
  next
    case (Suc k')
    have n: "bytes_find c marker = None" using Cons.prems(2)[of 0] Suc by simp
    have "scan cs = concat (take k' cs) @ take i (cs ! k') \<and> reads cs = Suc k'"
    proof (rule Cons.IH)
      show "k' < length cs" using Cons.prems(1) Suc by simp
      show "bytes_find (cs ! k') marker = Some i" using Cons.prems(3) Suc by simp
      fix j assume "j < k'"
      then show "bytes_find (cs ! j) marker = None" using Cons.prems(2)[of "Suc j"] Suc by simp
    qed
    then show ?thesis by (simp add: n Suc)
  qed
qed

lemma scan_none:
  "(\<And>c. c \<in> set cs \<Longrightarrow> bytes_find c marker = None) \<Longrightarrow>
     scan cs = concat cs \<and> reads cs = length cs"
  by (induction cs) simp_all

lemma unat_chunk_offset: "j \<le> 100 \<Longrightarrow> unat (word_of_nat (CHUNK_SIZE * j) :: 32 word) = CHUNK_SIZE * j"
proof -
  assume j: "j \<le> 100"
  have "unat (word_of_nat (CHUNK_SIZE * j) :: 32 word) = (CHUNK_SIZE * j) mod 2 ^ 32"
    by (simp only: unat_of_nat) simp
  also have "\<dots> = CHUNK_SIZE * j" using j by simp
  finally show ?thesis .
qed

lemma unat_chunk_size: "unat (word_of_nat CHUNK_SIZE :: 32 word) = CHUNK_SIZE"
  by simp

lemma length_flash_chunk: "length (flash_chunk lib d j) = CHUNK_SIZE"
  by (simp add: flash_chunk_def length_ctypes_buffer)

lemma length_chunk: "length (chunk mem j) = CHUNK_SIZE"
  by (simp add: chunk_def length_ctypes_buffer)

lemma length_concat_chunks:
  "(\<And>j. length (f j) = CHUNK_SIZE) \<Longrightarrow> length (concat (map f [0..<n])) = CHUNK_SIZE * n"
  by (induction n) simp_all

lemma flash_dev_mock:
  "flash_dev mock_lib d j =
     d\<lparr>m_reads := m_reads d @ map (\<lambda>i. (word_of_nat (CHUNK_SIZE * i), word_of_nat CHUNK_SIZE)) [0..<j]\<rparr>"
proof (induction j)
  case 0
  show ?case by simp
next
  case (Suc j)
  show ?case
    unfolding flash_dev.simps Suc by (simp add: mock_lib_def)
qed

lemma flash_status_mock: "flash_status mock_lib d j = m_status d"
  unfolding flash_status_def flash_dev_mock by (simp add: mock_lib_def)

lemma flash_chunk_mock:
  assumes "j \<le> 100"
  shows "flash_chunk mock_lib d j = chunk (m_flash d) j"
proof -
  have "snd (fst (readFlash mock_lib (word_of_nat (CHUNK_SIZE * j)) (word_of_nat CHUNK_SIZE)
                    (flash_dev mock_lib d j)))
        = take (unat (word_of_nat CHUNK_SIZE :: 32 word))
            (drop (unat (word_of_nat (CHUNK_SIZE * j) :: 32 word)) (m_flash d))"
    unfolding flash_dev_mock by (simp add: mock_lib_def)
  then show ?thesis
    unfolding flash_chunk_def chunk_def
    by (simp only: unat_chunk_offset[OF assms] unat_chunk_size)
qed

lemma flash_image_mock:
  "m_status d = 0 \<Longrightarrow> flash_image mock_lib d (m_flash d)"
  unfolding flash_image_def list_all_iff
  by (auto simp: flash_status_mock flash_chunk_mock)

text \<open>
  Claim C3. \<^verbatim>\<open>read_calibration_file\<close> reads chunks of 1000 bytes at the offsets 0, 1000,
  2000, \<dots>: the device it leaves is the one these reads produce, one after the other. When
  the reads succeed and chunk \<open>k \<le> 100\<close> is the first to contain the marker, at index \<open>i\<close>, it
  returns the chunks before \<open>k\<close> followed by the first \<open>i\<close> bytes of chunk \<open>k\<close>, after \<open>k + 1\<close>
  reads. When the reads succeed and none of the chunks 0 to 100 contains the marker, it
  returns these 101 chunks, 101000 bytes, without raising, after the read at offset 100000.
\<close>

theorem read_calibration_file_chunks:
  "(\<forall>k i. k \<le> 100 \<and> (\<forall>j\<le>k. flash_status lib (dev s) j = 0) \<and>
          (\<forall>j<k. bytes_find (flash_chunk lib (dev s) j) marker = None) \<and>
          bytes_find (flash_chunk lib (dev s) k) marker = Some i \<longrightarrow>
        read_calibration_file lib s =
          (Inr (concat (map (flash_chunk lib (dev s)) [0..<k]) @ take i (flash_chunk lib (dev s) k)),
           s\<lparr>dev := flash_dev lib (dev s) (Suc k), trace := trace s @ flash_reads 0 (Suc k)\<rparr>)) \<and>
   ((\<forall>j\<le>100. flash_status lib (dev s) j = 0 \<and>
             bytes_find (flash_chunk lib (dev s) j) marker = None) \<longrightarrow>
        read_calibration_file lib s =
          (Inr (concat (map (flash_chunk lib (dev s)) [0..<101])),
           s\<lparr>dev := flash_dev lib (dev s) 101, trace := trace s @ flash_reads 0 101\<rparr>) \<and>
        length (concat (map (flash_chunk lib (dev s)) [0..<101])) = 101000)"
proof (rule conjI)
  let ?cs = "map (flash_chunk lib (dev s)) [0..<101]"
  show "\<forall>k i. k \<le> 100 \<and> (\<forall>j\<le>k. flash_status lib (dev s) j = 0) \<and>
          (\<forall>j<k. bytes_find (flash_chunk lib (dev s) j) marker = None) \<and>
          bytes_find (flash_chunk lib (dev s) k) marker = Some i \<longrightarrow>
        read_calibration_file lib s =
          (Inr (concat (map (flash_chunk lib (dev s)) [0..<k]) @ take i (flash_chunk lib (dev s) k)),
           s\<lparr>dev := flash_dev lib (dev s) (Suc k), trace := trace s @ flash_reads 0 (Suc k)\<rparr>)"
  proof (intro allI, rule impI)
    fix k i
    assume h: "k \<le> 100 \<and> (\<forall>j\<le>k. flash_status lib (dev s) j = 0) \<and>
          (\<forall>j<k. bytes_find (flash_chunk lib (dev s) j) marker = None) \<and>
          bytes_find (flash_chunk lib (dev s) k) marker = Some i"
    then have k: "k \<le> 100" by blast
    have nth: "\<And>j. j \<le> 100 \<Longrightarrow> ?cs ! j = flash_chunk lib (dev s) j"
    proof -
      fix j :: nat assume "j \<le> 100"
      then have "j < length [0..<101]" by simp
      then have "?cs ! j = flash_chunk lib (dev s) ([0..<101] ! j)" by (rule nth_map)
      also have "[0..<101] ! j = j" using \<open>j \<le> 100\<close> by simp
      finally show "?cs ! j = flash_chunk lib (dev s) j" .
    qed
    have sf: "scan ?cs = concat (take k ?cs) @ take i (?cs ! k) \<and> reads ?cs = Suc k"
    proof (rule scan_found)
      show "k < length ?cs" using k by simp
      show "bytes_find (?cs ! k) marker = Some i" using h nth[OF k] by simp
      fix j assume "j < k"
      then show "bytes_find (?cs ! j) marker = None" using h k nth[of j] by simp
    qed
    have tk: "take k ?cs = map (flash_chunk lib (dev s)) [0..<k]"
      using k by (simp add: take_map)
    have "read_calibration_loop lib (CHUNK_SIZE * 0) False [] s =
           (Inr ([] @ scan ?cs),
            s\<lparr>dev := flash_dev lib (dev s) (0 + reads ?cs),
              trace := trace s @ flash_reads 0 (reads ?cs)\<rparr>)"
    proof (rule loop_scan)
      show "(0::nat) \<le> 101" by simp
      show "dev s = flash_dev lib (dev s) 0" by simp
      fix j assume "j < 0 + reads ?cs"
      then show "flash_status lib (dev s) j = 0" using sf h by simp
    qed
    then show "read_calibration_file lib s =
          (Inr (concat (map (flash_chunk lib (dev s)) [0..<k]) @ take i (flash_chunk lib (dev s) k)),
           s\<lparr>dev := flash_dev lib (dev s) (Suc k), trace := trace s @ flash_reads 0 (Suc k)\<rparr>)"
      unfolding read_calibration_file_def
      by (simp add: sf tk nth[OF k] del: flash_dev.simps upt_Suc)
  qed
next
  let ?cs = "map (flash_chunk lib (dev s)) [0..<101]"
  show "(\<forall>j\<le>100. flash_status lib (dev s) j = 0 \<and>
             bytes_find (flash_chunk lib (dev s) j) marker = None) \<longrightarrow>
        read_calibration_file lib s =
          (Inr (concat (map (flash_chunk lib (dev s)) [0..<101])),
           s\<lparr>dev := flash_dev lib (dev s) 101, trace := trace s @ flash_reads 0 101\<rparr>) \<and>
        length (concat (map (flash_chunk lib (dev s)) [0..<101])) = 101000"
  proof (rule impI)
    assume h: "\<forall>j\<le>100. flash_status lib (dev s) j = 0 \<and>
             bytes_find (flash_chunk lib (dev s) j) marker = None"
    have sn: "scan ?cs = concat ?cs \<and> reads ?cs = length ?cs"
    proof (rule scan_none)
      fix c assume "c \<in> set ?cs"
      then obtain j where "j < 101" "c = flash_chunk lib (dev s) j" by auto
      then show "bytes_find c marker = None" using h by simp
    qed
    have "read_calibration_loop lib (CHUNK_SIZE * 0) False [] s =
           (Inr ([] @ scan ?cs),
            s\<lparr>dev := flash_dev lib (dev s) (0 + reads ?cs),
              trace := trace s @ flash_reads 0 (reads ?cs)\<rparr>)"
    proof (rule loop_scan)
      show "(0::nat) \<le> 101" by simp
      show "dev s = flash_dev lib (dev s) 0" by simp
      fix j assume "j < 0 + reads ?cs"
      then show "flash_status lib (dev s) j = 0" using sn h by simp
    qed
    then have "read_calibration_file lib s =
          (Inr (concat ?cs),
           s\<lparr>dev := flash_dev lib (dev s) 101, trace := trace s @ flash_reads 0 101\<rparr>)"
      unfolding read_calibration_file_def
      by (simp add: sn del: flash_dev.simps upt_Suc)
    moreover have "length (concat ?cs) = CHUNK_SIZE * 101"
      by (rule length_concat_chunks) (rule length_flash_chunk)
    ultimately show "read_calibration_file lib s =
          (Inr (concat ?cs),
           s\<lparr>dev := flash_dev lib (dev s) 101, trace := trace s @ flash_reads 0 101\<rparr>) \<and>
        length (concat ?cs) = 101000"
      by simp
  qed
qed

lemma bytes_find_zeros: "bytes_find (replicate n 0) marker = None"
  by (induction n) simp_all

lemma concat_replicate_chunks:
  "concat (map (\<lambda>j. replicate m x) [0..<n]) = replicate (m * n) x"
proof (induction n)
  case 0
  show ?case by simp
next
  case (Suc n)
  have "replicate (m * n) x @ replicate m x = replicate (m * n + m) x"
    by (simp add: replicate_add)
  then show ?case using Suc by simp
qed

lemma chunk_Nil: "chunk [] j = replicate CHUNK_SIZE 0"
  by (simp add: chunk_def ctypes_buffer_def)

theorem read_calibration_file_chunks_witness:
  "read_calibration_file mock_lib (new_session short_device) =
     (Inr [48, 10, 49],
      (new_session short_device)\<lparr>dev := short_device\<lparr>m_reads := [(0, 1000)]\<rparr>,
                                  trace := [ReadFlash 0 1000]\<rparr>) \<and>
   read_calibration_file mock_lib (new_session blank_device) =
     (Inr (replicate 101000 0),
      (new_session blank_device)
        \<lparr>dev := blank_device\<lparr>m_reads := map (\<lambda>i. (word_of_nat (CHUNK_SIZE * i), 1000)) [0..<101]\<rparr>,
         trace := flash_reads 0 101\<rparr>) \<and>
   length (replicate 101000 (0 :: byte)) = 101000"
proof -
  let ?s = "new_session short_device"
  let ?b = "new_session blank_device"
  have ds: "dev ?s = short_device" and ts: "trace ?s = []"
    and db: "dev ?b = blank_device" and tb: "trace ?b = []"
    by (simp_all add: new_session_def)
  have c0: "flash_chunk mock_lib short_device 0 = [48, 10, 49, 0xFF, 0xFF] @ replicate 995 0"
    by (simp add: flash_chunk_mock chunk_def ctypes_buffer_def short_device_def)
  have hs: "(0::nat) \<le> 100 \<and> (\<forall>j\<le>0. flash_status mock_lib (dev ?s) j = 0) \<and>
          (\<forall>j<0. bytes_find (flash_chunk mock_lib (dev ?s) j) marker = None) \<and>
          bytes_find (flash_chunk mock_lib (dev ?s) 0) marker = Some 3"
    unfolding ds by (simp add: flash_status_mock c0) (simp add: short_device_def)
  from read_calibration_file_chunks[of mock_lib ?s, THEN conjunct1, THEN spec, THEN spec, THEN mp, OF hs]
  have a: "read_calibration_file mock_lib ?s =
     (Inr [48, 10, 49], ?s\<lparr>dev := short_device\<lparr>m_reads := [(0, 1000)]\<rparr>, trace := [ReadFlash 0 1000]\<rparr>)"
    unfolding ds ts c0 flash_dev_mock
    by (simp add: flash_reads_def) (simp add: short_device_def)
  have cb: "\<And>j. j \<le> 100 \<Longrightarrow> flash_chunk mock_lib blank_device j = replicate CHUNK_SIZE 0"
    by (simp add: flash_chunk_mock blank_device_def chunk_Nil)
  have hb: "\<forall>j\<le>100. flash_status mock_lib (dev ?b) j = 0 \<and>
             bytes_find (flash_chunk mock_lib (dev ?b) j) marker = None"
    unfolding db by (simp add: flash_status_mock cb bytes_find_zeros) (simp add: blank_device_def)
  have mb: "map (flash_chunk mock_lib blank_device) [0..<101]
              = map (\<lambda>j. replicate CHUNK_SIZE 0) [0..<101]"
    by (rule map_cong) (simp_all add: cb)
  from read_calibration_file_chunks[of mock_lib ?b, THEN conjunct2, THEN mp, OF hb, THEN conjunct1]
  have b: "read_calibration_file mock_lib ?b =
     (Inr (replicate 101000 0),
      ?b\<lparr>dev := blank_device\<lparr>m_reads := map (\<lambda>i. (word_of_nat (CHUNK_SIZE * i), 1000)) [0..<101]\<rparr>,
         trace := flash_reads 0 101\<rparr>)"
    unfolding db tb mb concat_replicate_chunks flash_dev_mock
    by (simp del: upt_Suc) (simp add: blank_device_def del: upt_Suc)
  from a b show ?thesis by simp
qed

lemma marker_at_Cons_0: "marker_at (x # xs) 0 \<longleftrightarrow> prefix marker (x # xs)"
  by (cases xs) (simp_all add: marker_at_def)

lemma marker_at_Cons_Suc: "marker_at (x # xs) (Suc q) \<longleftrightarrow> marker_at xs q"
  by (simp add: marker_at_def)

lemma bytes_find_None_iff: "bytes_find xs marker = None \<longleftrightarrow> (\<forall>q. \<not> marker_at xs q)"
proof (induction xs)
  case Nil
  show ?case by (simp add: marker_at_def)
next
  case (Cons x xs)
  have "(\<forall>q. \<not> marker_at (x # xs) q) \<longleftrightarrow>
          \<not> marker_at (x # xs) 0 \<and> (\<forall>q. \<not> marker_at (x # xs) (Suc q))"
    by (metis nat.exhaust)
  then show ?case
    unfolding marker_at_Cons_0 marker_at_Cons_Suc using Cons.IH by simp
qed

lemma bytes_find_Some_iff:
  "bytes_find xs marker = Some i \<longleftrightarrow> marker_at xs i \<and> (\<forall>q<i. \<not> marker_at xs q)"
proof (induction xs arbitrary: i)
  case Nil
  show ?case by (simp add: marker_at_def)
next
  case (Cons x xs)
  show ?case
  proof (cases "prefix marker (x # xs)")
    case True
    then have m0: "marker_at (x # xs) 0" by (simp only: marker_at_Cons_0)
    have "bytes_find (x # xs) marker = Some i \<longleftrightarrow> i = 0" using True by auto
    moreover have "marker_at (x # xs) i \<and> (\<forall>q<i. \<not> marker_at (x # xs) q) \<longleftrightarrow> i = 0"
      using m0 by (cases i) auto
    ultimately show ?thesis by simp
  next
    case False
    note np = this
    then have m0: "\<not> marker_at (x # xs) 0" using marker_at_Cons_0 by blast
    show ?thesis
    proof (cases i)
      case 0
      have "bytes_find (x # xs) marker \<noteq> Some 0" using np by simp
      then show ?thesis using m0 unfolding 0 by blast
    next
      case (Suc i')
      have "bytes_find (x # xs) marker = Some i \<longleftrightarrow> bytes_find xs marker = Some i'"
        using np Suc by auto
      also have "\<dots> \<longleftrightarrow> marker_at xs i' \<and> (\<forall>q<i'. \<not> marker_at xs q)" by (rule Cons.IH)
      also have "\<dots> \<longleftrightarrow> marker_at (x # xs) i \<and> (\<forall>q<i. \<not> marker_at (x # xs) q)"
        unfolding Suc All_less_Suc2 marker_at_Cons_Suc using m0 by simp
      finally show ?thesis .
    qed
  qed
qed

lemma chunk_nth:
  "q < CHUNK_SIZE \<Longrightarrow>
     chunk mem j ! q = (if CHUNK_SIZE * j + q < length mem then mem ! (CHUNK_SIZE * j + q) else 0)"
  by (auto simp: chunk_def ctypes_buffer_def nth_append)

lemma marker_at_chunk:
  "marker_at (chunk mem j) q \<longleftrightarrow> q < 999 \<and> marker_at mem (CHUNK_SIZE * j + q)"
proof (cases "q < 999")
  case True
  then show ?thesis
    by (auto simp: marker_at_def length_chunk chunk_nth)
next
  case False
  then show ?thesis by (simp add: marker_at_def length_chunk)
qed

lemma chunk_None:
  "bytes_find (chunk mem j) marker = None \<longleftrightarrow> (\<forall>q<999. \<not> marker_at mem (CHUNK_SIZE * j + q))"
  unfolding bytes_find_None_iff marker_at_chunk by blast

lemma chunk_Some:
  "bytes_find (chunk mem j) marker = Some i \<longleftrightarrow>
     i < 999 \<and> marker_at mem (CHUNK_SIZE * j + i) \<and> (\<forall>q<i. \<not> marker_at mem (CHUNK_SIZE * j + q))"
  unfolding bytes_find_Some_iff marker_at_chunk by auto

lemma chunk_take:
  "CHUNK_SIZE * j + i \<le> length mem \<Longrightarrow> i \<le> CHUNK_SIZE \<Longrightarrow>
     take i (chunk mem j) = take i (drop (CHUNK_SIZE * j) mem)"
  by (auto simp: chunk_def ctypes_buffer_def min_def)

lemma concat_chunks:
  "CHUNK_SIZE * n \<le> length mem \<Longrightarrow> concat (map (chunk mem) [0..<n]) = take (CHUNK_SIZE * n) mem"
proof (induction n)
  case 0
  show ?case by simp
next
  case (Suc n)
  have c: "chunk mem n = take CHUNK_SIZE (drop (CHUNK_SIZE * n) mem)"
    using chunk_take[of n CHUNK_SIZE mem] Suc.prems by (simp add: length_chunk)
  have "concat (map (chunk mem) [0..<Suc n]) = take (CHUNK_SIZE * n) mem @ chunk mem n"
    using Suc by simp
  also have "\<dots> = take (CHUNK_SIZE * n + CHUNK_SIZE) mem"
    unfolding c by (simp only: take_add)
  finally show ?case by (simp add: add.commute)
qed

lemma reads_le: "reads cs \<le> length cs"
  by (induction cs) (simp_all split: option.split)

lemma reads_pos: "cs \<noteq> [] \<Longrightarrow> 0 < reads cs"
  by (cases cs) (simp_all split: option.split)

lemma scan_append:
  "(\<And>c. c \<in> set cs \<Longrightarrow> bytes_find c marker = None) \<Longrightarrow>
     scan (cs @ ds) = concat cs @ scan ds \<and> reads (cs @ ds) = length cs + reads ds"
  by (induction cs) simp_all

lemma read_calibration_file_image:
  assumes "flash_image lib (dev s) mem"
  shows "read_calibration_file lib s =
           (Inr (scan (map (chunk mem) [0..<101])),
            s\<lparr>dev := flash_dev lib (dev s) (reads (map (chunk mem) [0..<101])),
              trace := trace s @ flash_reads 0 (reads (map (chunk mem) [0..<101]))\<rparr>)"
proof -
  from assms have im: "\<And>j. j < 101 \<Longrightarrow>
      flash_status lib (dev s) j = 0 \<and> flash_chunk lib (dev s) j = chunk mem j"
    unfolding flash_image_def list_all_iff by simp
  have m: "map (flash_chunk lib (dev s)) [0..<101] = map (chunk mem) [0..<101]"
    by (rule map_cong) (simp_all add: im)
  have "read_calibration_loop lib (CHUNK_SIZE * 0) False [] s =
           (Inr ([] @ scan (map (flash_chunk lib (dev s)) [0..<101])),
            s\<lparr>dev := flash_dev lib (dev s) (0 + reads (map (flash_chunk lib (dev s)) [0..<101])),
              trace := trace s @ flash_reads 0 (reads (map (flash_chunk lib (dev s)) [0..<101]))\<rparr>)"
  proof (rule loop_scan)
    show "(0::nat) \<le> 101" by simp
    show "dev s = flash_dev lib (dev s) 0" by simp
    fix i assume "i < 0 + reads (map (flash_chunk lib (dev s)) [0..<101])"
    moreover have "reads (map (flash_chunk lib (dev s)) [0..<101]) \<le> 101"
      using reads_le[of "map (flash_chunk lib (dev s)) [0..<101]"] by simp
    ultimately have "i < 101" by simp
    then show "flash_status lib (dev s) i = 0" using im by simp
  qed
  then show ?thesis unfolding m read_calibration_file_def by simp
qed

lemma marker_scan:
  assumes "flash_image lib (dev s) mem"
    and "marker_at mem p"
    and "\<forall>q<p. marker_at mem q \<longrightarrow> q mod CHUNK_SIZE = 999"
  shows "(p mod CHUNK_SIZE \<noteq> 999 \<and> p div CHUNK_SIZE \<le> 100 \<longrightarrow>
            read_calibration_file lib s =
              (Inr (take p mem),
               s\<lparr>dev := flash_dev lib (dev s) (Suc (p div CHUNK_SIZE)),
                 trace := trace s @ flash_reads 0 (Suc (p div CHUNK_SIZE))\<rparr>)) \<and>
         (p mod CHUNK_SIZE = 999 \<and> p div CHUNK_SIZE < 100 \<longrightarrow>
            read_calibration_file lib s =
              (Inr (take (Suc p) mem @ scan (map (chunk mem) [Suc (p div CHUNK_SIZE)..<101])),
               s\<lparr>dev := flash_dev lib (dev s)
                         (Suc (p div CHUNK_SIZE) + reads (map (chunk mem) [Suc (p div CHUNK_SIZE)..<101])),
                 trace := trace s @ flash_reads 0
                         (Suc (p div CHUNK_SIZE) + reads (map (chunk mem) [Suc (p div CHUNK_SIZE)..<101]))\<rparr>) \<and>
            0 < reads (map (chunk mem) [Suc (p div CHUNK_SIZE)..<101]))"
proof (rule conjI)
  let ?k = "p div CHUNK_SIZE"
  let ?i = "p mod CHUNK_SIZE"
  let ?cs = "map (chunk mem) [0..<101]"
  have p: "p = CHUNK_SIZE * ?k + ?i" by simp
  have len: "p + 1 < length mem" using assms(2) by (simp add: marker_at_def)
  have before: "\<And>j q. j < ?k \<Longrightarrow> q < 999 \<Longrightarrow> \<not> marker_at mem (CHUNK_SIZE * j + q)"
  proof -
    fix j q :: nat assume j: "j < ?k" and q: "q < 999"
    have "CHUNK_SIZE * j + q < CHUNK_SIZE * Suc j" using q by simp
    also have "\<dots> \<le> CHUNK_SIZE * ?k" using j by simp
    also have "\<dots> \<le> p" by simp
    finally have lt: "CHUNK_SIZE * j + q < p" .
    have "(CHUNK_SIZE * j + q) mod CHUNK_SIZE = q" using q by simp
    then show "\<not> marker_at mem (CHUNK_SIZE * j + q)" using assms(3) lt q by auto
  qed
  have inside: "\<And>q. q < ?i \<Longrightarrow> q < 999 \<Longrightarrow> \<not> marker_at mem (CHUNK_SIZE * ?k + q)"
  proof -
    fix q :: nat assume q: "q < ?i" "q < 999"
    have lt: "CHUNK_SIZE * ?k + q < p" using q(1) p by linarith
    have "(CHUNK_SIZE * ?k + q) mod CHUNK_SIZE = q" using q(2) by simp
    then show "\<not> marker_at mem (CHUNK_SIZE * ?k + q)" using assms(3) lt q(2) by auto
  qed
  have none: "\<And>j. j < ?k \<Longrightarrow> bytes_find (chunk mem j) marker = None"
    unfolding chunk_None using before by blast
  have img: "read_calibration_file lib s =
           (Inr (scan ?cs),
            s\<lparr>dev := flash_dev lib (dev s) (reads ?cs), trace := trace s @ flash_reads 0 (reads ?cs)\<rparr>)"
    by (rule read_calibration_file_image[OF assms(1)])
  show "?i \<noteq> 999 \<and> ?k \<le> 100 \<longrightarrow>
            read_calibration_file lib s =
              (Inr (take p mem),
               s\<lparr>dev := flash_dev lib (dev s) (Suc ?k), trace := trace s @ flash_reads 0 (Suc ?k)\<rparr>)"
  proof (rule impI)
    assume h: "?i \<noteq> 999 \<and> ?k \<le> 100"
    have i: "?i < 999"
    proof -
      have "?i < CHUNK_SIZE" by simp
      with h show ?thesis by linarith
    qed
    have k: "?k < length ?cs" using h by simp
    have nth: "\<And>j. j \<le> ?k \<Longrightarrow> ?cs ! j = chunk mem j"
    proof -
      fix j assume "j \<le> ?k"
      then have "j < 101" using h by simp
      then show "?cs ! j = chunk mem j" by (simp del: upt_Suc)
    qed
    have found: "bytes_find (chunk mem ?k) marker = Some ?i"
      unfolding chunk_Some using i assms(2) inside by auto
    have sf: "scan ?cs = concat (take ?k ?cs) @ take ?i (?cs ! ?k) \<and> reads ?cs = Suc ?k"
    proof (rule scan_found[OF k])
      show "bytes_find (?cs ! ?k) marker = Some ?i" using found nth[of ?k] by simp
      fix j assume "j < ?k"
      then show "bytes_find (?cs ! j) marker = None" using none[of j] nth[of j] by simp
    qed
    have tk: "take ?k ?cs = map (chunk mem) [0..<?k]"
      using h by (simp add: take_map del: upt_Suc)
    have le: "CHUNK_SIZE * ?k \<le> length mem" using len p by linarith
    have le2: "CHUNK_SIZE * ?k + ?i \<le> length mem" using len by simp
    have "scan ?cs = take (CHUNK_SIZE * ?k) mem @ take ?i (drop (CHUNK_SIZE * ?k) mem)"
      using sf unfolding tk nth[OF order_refl] concat_chunks[OF le]
      by (simp only: chunk_take[OF le2] less_imp_le[OF mod_less_divisor] zero_less_numeral)
    also have "\<dots> = take (CHUNK_SIZE * ?k + ?i) mem" by (simp only: take_add)
    also have "\<dots> = take p mem" by simp
    finally have sc: "scan ?cs = take p mem" .
    show "read_calibration_file lib s =
              (Inr (take p mem),
               s\<lparr>dev := flash_dev lib (dev s) (Suc ?k), trace := trace s @ flash_reads 0 (Suc ?k)\<rparr>)"
      unfolding img sc using sf by (simp del: flash_dev.simps)
  qed
  let ?rest = "map (chunk mem) [Suc ?k..<101]"
  show "?i = 999 \<and> ?k < 100 \<longrightarrow>
            read_calibration_file lib s =
              (Inr (take (Suc p) mem @ scan ?rest),
               s\<lparr>dev := flash_dev lib (dev s) (Suc ?k + reads ?rest),
                 trace := trace s @ flash_reads 0 (Suc ?k + reads ?rest)\<rparr>) \<and>
            0 < reads ?rest"
  proof (rule impI)
    assume h: "?i = 999 \<and> ?k < 100"
    have sp: "Suc p = CHUNK_SIZE * Suc ?k"
    proof -
      have "Suc (CHUNK_SIZE * ?k + ?i) = CHUNK_SIZE * Suc ?k" using h by simp
      then show ?thesis by simp
    qed
    have le: "CHUNK_SIZE * Suc ?k \<le> length mem" using len sp by linarith
    have nk: "bytes_find (chunk mem ?k) marker = None"
      unfolding chunk_None using inside h by simp
    have all: "\<And>c. c \<in> set (map (chunk mem) [0..<Suc ?k]) \<Longrightarrow> bytes_find c marker = None"
    proof -
      fix c assume "c \<in> set (map (chunk mem) [0..<Suc ?k])"
      then have "\<exists>j. j \<le> ?k \<and> c = chunk mem j"
        by (auto simp del: upt_Suc simp: less_Suc_eq_le)
      then obtain j where j: "j \<le> ?k" "c = chunk mem j" by blast
      show "bytes_find c marker = None"
      proof (cases "j = ?k")
        case True
        then show ?thesis using nk j by simp
      next
        case False
        then have "j < ?k" using j(1) by simp
        then show ?thesis using none j(2) by simp
      qed
    qed
    have "[0..<Suc ?k + (100 - ?k)] = [0..<Suc ?k] @ [Suc ?k..<Suc ?k + (100 - ?k)]"
      by (rule upt_add_eq_append) simp
    moreover have "Suc ?k + (100 - ?k) = 101" using h by simp
    ultimately have up: "[0..<101] = [0..<Suc ?k] @ [Suc ?k..<101]" by simp
    have cs: "?cs = map (chunk mem) [0..<Suc ?k] @ ?rest"
      unfolding up by (simp only: map_append)
    have sa: "scan ?cs = concat (map (chunk mem) [0..<Suc ?k]) @ scan ?rest \<and>
              reads ?cs = length (map (chunk mem) [0..<Suc ?k]) + reads ?rest"
      unfolding cs by (rule scan_append) (rule all)
    have sc: "scan ?cs = take (Suc p) mem @ scan ?rest"
      using sa unfolding concat_chunks[OF le] sp by simp
    have rd: "reads ?cs = Suc ?k + reads ?rest" using sa by simp
    have ne: "[Suc ?k..<101] \<noteq> []" using h by simp
    have pos: "0 < reads ?rest" by (rule reads_pos) (use ne in simp)
    show "read_calibration_file lib s =
              (Inr (take (Suc p) mem @ scan ?rest),
               s\<lparr>dev := flash_dev lib (dev s) (Suc ?k + reads ?rest),
                 trace := trace s @ flash_reads 0 (Suc ?k + reads ?rest)\<rparr>) \<and>
            0 < reads ?rest"
      unfolding img sc rd using pos by simp
  qed
qed

text \<open>
  Claim C8. Let the flash hold the bytes \<open>mem\<close> and let the marker \<^verbatim>\<open>0xFF 0xFF\<close> stand at the
  position \<open>p\<close> of \<open>mem\<close>, no marker before \<open>p\<close> lying within a single chunk (a marker at \<open>q\<close>
  lies within one chunk when \<open>q mod 1000 \<noteq> 999\<close>, and spans two chunks when
  \<open>q mod 1000 = 999\<close>). If the marker at \<open>p\<close> lies within a chunk that is read, also at its
  very start, \<^verbatim>\<open>read_calibration_file\<close> detects it: it returns the \<open>p\<close> bytes before the marker
  and stops after the read of that chunk. If the marker at \<open>p\<close> spans two chunks it is not
  detected: the whole chunk, the first byte of the marker included, is accumulated, the
  next chunk is read, and the search goes on from that chunk as if nothing had been seen.
\<close>

theorem marker_detection:
  assumes "flash_image lib (dev s) mem"
    and "marker_at mem p"
    and "\<forall>q<p. marker_at mem q \<longrightarrow> q mod CHUNK_SIZE = 999"
  shows "(p mod CHUNK_SIZE \<noteq> 999 \<and> p div CHUNK_SIZE \<le> 100 \<longrightarrow>
            read_calibration_file lib s =
              (Inr (take p mem),
               s\<lparr>dev := flash_dev lib (dev s) (Suc (p div CHUNK_SIZE)),
                 trace := trace s @ flash_reads 0 (Suc (p div CHUNK_SIZE))\<rparr>)) \<and>
         (p mod CHUNK_SIZE = 999 \<and> p div CHUNK_SIZE < 100 \<longrightarrow>
            read_calibration_file lib s =
              (Inr (take (Suc p) mem @ scan (map (chunk mem) [Suc (p div CHUNK_SIZE)..<101])),
               s\<lparr>dev := flash_dev lib (dev s)
                         (Suc (p div CHUNK_SIZE) + reads (map (chunk mem) [Suc (p div CHUNK_SIZE)..<101])),
                 trace := trace s @ flash_reads 0
                         (Suc (p div CHUNK_SIZE) + reads (map (chunk mem) [Suc (p div CHUNK_SIZE)..<101]))\<rparr>) \<and>
            0 < reads (map (chunk mem) [Suc (p div CHUNK_SIZE)..<101]))"
  using assms by (rule marker_scan)

lemma concat_replicate_map:
  "concat (map (\<lambda>j. replicate m x) js) = replicate (m * length js) x"
proof (induction js)
  case Nil
  show ?case by simp
next
  case (Cons j js)
  have "replicate m x @ replicate (m * length js) x = replicate (m + m * length js) x"
    by (simp add: replicate_add)
  then show ?case using Cons by simp
qed

theorem marker_detection_witness:
  "read_calibration_file mock_lib (new_session boundary_device) =
     (Inr (replicate 1000 49),
      (new_session boundary_device)
        \<lparr>dev := boundary_device\<lparr>m_reads := [(0, 1000), (1000, 1000)]\<rparr>,
         trace := [ReadFlash 0 1000, ReadFlash 1000 1000]\<rparr>) \<and>
   read_calibration_file mock_lib (new_session straddle_device) =
     (Inr (replicate 999 49 @ [0xFF, 0xFF] @ replicate 99999 0),
      (new_session straddle_device)
        \<lparr>dev := straddle_device\<lparr>m_reads := map (\<lambda>i. (word_of_nat (CHUNK_SIZE * i), 1000)) [0..<101]\<rparr>,
         trace := flash_reads 0 101\<rparr>)"
proof (rule conjI)
  let ?b = "new_session boundary_device"
  let ?mb = "replicate 1000 49 @ [0xFF, 0xFF] :: byte list"
  have db: "dev ?b = boundary_device" and tb: "trace ?b = []"
    by (simp_all add: new_session_def)
  have fb: "m_flash boundary_device = ?mb" and sb: "m_status boundary_device = 0"
    and rb: "m_reads boundary_device = []"
    by (simp_all add: boundary_device_def)
  have imb: "flash_image mock_lib (dev ?b) ?mb"
    unfolding db using flash_image_mock[OF sb] by (simp only: fb)
  have mab: "marker_at ?mb 1000"
    by (simp add: marker_at_def nth_append)
  have firstb: "\<forall>q<1000. marker_at ?mb q \<longrightarrow> q mod CHUNK_SIZE = 999"
    by (simp add: marker_at_def nth_append)
  have hb: "(1000::nat) mod CHUNK_SIZE \<noteq> 999 \<and> (1000::nat) div CHUNK_SIZE \<le> 100" by simp
  have two: "Suc (1000 div CHUNK_SIZE) = 2" by simp
  from marker_detection[OF imb mab firstb, THEN conjunct1, THEN mp, OF hb]
  show "read_calibration_file mock_lib ?b =
     (Inr (replicate 1000 49),
      ?b\<lparr>dev := boundary_device\<lparr>m_reads := [(0, 1000), (1000, 1000)]\<rparr>,
         trace := [ReadFlash 0 1000, ReadFlash 1000 1000]\<rparr>)"
    unfolding two db tb flash_dev_mock rb
    by (simp add: flash_reads_def upt_conv_Cons)
next
  let ?s = "new_session straddle_device"
  let ?ms = "replicate 999 49 @ [0xFF, 0xFF] :: byte list"
  have ds: "dev ?s = straddle_device" and ts: "trace ?s = []"
    by (simp_all add: new_session_def)
  have fs: "m_flash straddle_device = ?ms" and ss: "m_status straddle_device = 0"
    and rs: "m_reads straddle_device = []"
    by (simp_all add: straddle_device_def)
  have ims: "flash_image mock_lib (dev ?s) ?ms"
    unfolding ds using flash_image_mock[OF ss] by (simp only: fs)
  have mas: "marker_at ?ms 999"
    by (simp add: marker_at_def nth_append)
  have firsts: "\<forall>q<999. marker_at ?ms q \<longrightarrow> q mod CHUNK_SIZE = 999"
    by (simp add: marker_at_def nth_append)
  have hs: "(999::nat) mod CHUNK_SIZE = 999 \<and> (999::nat) div CHUNK_SIZE < 100" by simp
  have one: "Suc (999 div CHUNK_SIZE) = 1" by simp
  have c1: "chunk ?ms 1 = 0xFF # replicate 999 0"
    by (simp add: chunk_def ctypes_buffer_def)
  have cj: "\<And>j. 2 \<le> j \<Longrightarrow> chunk ?ms j = replicate CHUNK_SIZE 0"
    by (simp add: chunk_def ctypes_buffer_def)
  have "map (chunk ?ms) [2..<101] = map (\<lambda>j. replicate CHUNK_SIZE 0) [2..<101]"
    by (rule map_cong) (simp_all add: cj del: upt_rec_numeral)
  moreover have "[1..<101] = 1 # [2..<101]" by (simp add: upt_conv_Cons)
  ultimately have rest: "map (chunk ?ms) [1..<101] =
       (0xFF # replicate 999 0) # map (\<lambda>j. replicate CHUNK_SIZE 0) [2..<101]"
    using c1 by (simp del: upt_rec_numeral)
  have n1: "bytes_find (0xFF # replicate 999 0) marker = None"
    unfolding bytes_find_None_iff by (simp add: marker_at_def nth_Cons split: nat.split)
  have n0: "bytes_find (replicate CHUNK_SIZE 0) marker = None"
    unfolding bytes_find_None_iff by (simp add: marker_at_def)
  have sn: "scan (map (chunk ?ms) [1..<101]) = concat (map (chunk ?ms) [1..<101]) \<and>
            reads (map (chunk ?ms) [1..<101]) = length (map (chunk ?ms) [1..<101])"
  proof (rule scan_none)
    fix c assume "c \<in> set (map (chunk ?ms) [1..<101])"
    then have "c = 0xFF # replicate 999 0 \<or> c = replicate CHUNK_SIZE 0"
      unfolding rest by (auto simp del: upt_rec_numeral)
    then show "bytes_find c marker = None" using n1 n0 by blast
  qed
  have sc: "scan (map (chunk ?ms) [1..<101]) = 0xFF # replicate 99999 0"
  proof -
    have "scan (map (chunk ?ms) [1..<101]) =
            (0xFF # replicate 999 0) @ replicate (CHUNK_SIZE * 99) 0"
      using sn unfolding rest by (simp add: concat_replicate_map del: upt_Suc upt_rec_numeral)
    also have "\<dots> = 0xFF # replicate (999 + 99000) 0"
      by (simp only: replicate_add append_Cons) simp
    finally show ?thesis by simp
  qed
  have rd: "reads (map (chunk ?ms) [1..<101]) = 100" using sn by (simp del: upt_rec_numeral)
  have tk: "take (Suc 999) ?ms = replicate 999 49 @ [0xFF]" by simp
  from marker_detection[OF ims mas firsts, THEN conjunct2, THEN mp, OF hs, THEN conjunct1]
  show "read_calibration_file mock_lib ?s =
     (Inr (replicate 999 49 @ [0xFF, 0xFF] @ replicate 99999 0),
      ?s\<lparr>dev := straddle_device\<lparr>m_reads := map (\<lambda>i. (word_of_nat (CHUNK_SIZE * i), 1000)) [0..<101]\<rparr>,
         trace := flash_reads 0 101\<rparr>)"
    unfolding one sc rd tk ds ts flash_dev_mock rs
    by (simp del: upt_Suc upt_rec_numeral)
qed


section \<open>Properties of the calibration parser\<close>

lemma those_map_Some: "those (map Some xs) = Some xs"
  by (induction xs) simp_all

lemma length_slice: "length (slice i j xs) = min (length xs) j - i"
  by (simp add: slice_def min_def)

text \<open>
  Claim C2 as it is stated fails: the flash of \<open>short_device\<close> holds a text of two lines, and
  the load succeeds with three empty coefficient arrays.
\<close>

theorem short_calibration_accepted:
  "load_calibration_data digit_parsers mock_lib (new_session short_device) = (Inr (), short_loaded) \<and>
   wavelength short_loaded = Some [] \<and> norm_coef short_loaded = Some [] \<and>
   power_coef short_loaded = Some [] \<and>
   fst (read_calibration_file mock_lib (new_session short_device)) = Inr [48, 10, 49] \<and>
   map_option splitlines (utf8_decode [48, 10, 49]) = Some [[48], [49]]"
  using load_short read_calibration_file_short
  by (simp add: short_loaded_def splitlines_def linebreak_def)

text \<open>
  Claim C2, amended. \<^verbatim>\<open>load_calibration_data\<close> has no check of the number of lines. When
  the decoded text has fewer than two lines it raises \<^verbatim>\<open>ValueError\<close> before any array is
  sliced: the \<^verbatim>\<open>IndexError\<close> of \<^verbatim>\<open>lines[1]\<close> is caught and nothing has been stored. When the
  text has between 2 and 10972 lines and \<^verbatim>\<open>bck_aT\<close> and the entries that are present convert,
  the load succeeds: the three slices are clamped to the lines there are, nothing is indexed
  out of bounds, and the arrays stored have \<open>min n 3665 - 12\<close>, \<open>min n 7319 - 3666\<close> and
  \<open>n - 7320\<close> entries for \<open>n\<close> lines, the last one fewer than 3653.
\<close>

theorem load_calibration_data_short_text:
  assumes "\<not> calibration_data_loaded s"
    and "read_calibration_file lib s = (Inr calib, s1)"
    and "utf8_decode calib = Some t"
    and "length (splitlines t) < 10973"
  shows "(length (splitlines t) < 2 \<longrightarrow>
            load_calibration_data P lib s = (Inl ValueError, s1)) \<and>
         (\<forall>b w n p.
            2 \<le> length (splitlines t) \<and> py_float P (splitlines t ! 1) = Some b \<and>
            map (np_float P) (slice 12 3665 (splitlines t)) = map Some w \<and>
            map (np_float P) (slice 3666 7319 (splitlines t)) = map Some n \<and>
            map (np_float P) (slice 7320 10973 (splitlines t)) = map Some p \<longrightarrow>
            load_calibration_data P lib s =
              (Inr (), s1\<lparr>bck_aT := Some b, wavelength := Some w, norm_coef := Some n,
                          power_coef := Some p, calibration_data_loaded := True\<rparr>) \<and>
            length w = min (length (splitlines t)) 3665 - 12 \<and>
            length n = min (length (splitlines t)) 7319 - 3666 \<and>
            length p = length (splitlines t) - 7320 \<and> length p < 3653)"
proof (rule conjI)
  show "length (splitlines t) < 2 \<longrightarrow> load_calibration_data P lib s = (Inl ValueError, s1)"
    unfolding load_calibration_data_def using assms(1,2,3) by (simp add: Let_def)
  show "\<forall>b w n p.
            2 \<le> length (splitlines t) \<and> py_float P (splitlines t ! 1) = Some b \<and>
            map (np_float P) (slice 12 3665 (splitlines t)) = map Some w \<and>
            map (np_float P) (slice 3666 7319 (splitlines t)) = map Some n \<and>
            map (np_float P) (slice 7320 10973 (splitlines t)) = map Some p \<longrightarrow>
            load_calibration_data P lib s =
              (Inr (), s1\<lparr>bck_aT := Some b, wavelength := Some w, norm_coef := Some n,
                          power_coef := Some p, calibration_data_loaded := True\<rparr>) \<and>
            length w = min (length (splitlines t)) 3665 - 12 \<and>
            length n = min (length (splitlines t)) 7319 - 3666 \<and>
            length p = length (splitlines t) - 7320 \<and> length p < 3653"
  proof (intro allI, rule impI)
    fix b w n p
    assume h: "2 \<le> length (splitlines t) \<and> py_float P (splitlines t ! 1) = Some b \<and>
            map (np_float P) (slice 12 3665 (splitlines t)) = map Some w \<and>
            map (np_float P) (slice 3666 7319 (splitlines t)) = map Some n \<and>
            map (np_float P) (slice 7320 10973 (splitlines t)) = map Some p"
    let ?ls = "splitlines t"
    have l2: "1 < length ?ls" using h by simp
    have b: "py_float P (?ls ! 1) = Some b" using h by simp
    have w: "np_array P (slice 12 3665 ?ls) = Some w"
      unfolding np_array_def using h by (simp add: those_map_Some)
    have n: "np_array P (slice 3666 7319 ?ls) = Some n"
      unfolding np_array_def using h by (simp add: those_map_Some)
    have p: "np_array P (slice 7320 10973 ?ls) = Some p"
      unfolding np_array_def using h by (simp add: those_map_Some)
    have load: "load_calibration_data P lib s =
              (Inr (), s1\<lparr>bck_aT := Some b, wavelength := Some w, norm_coef := Some n,
                          power_coef := Some p, calibration_data_loaded := True\<rparr>)"
      unfolding load_calibration_data_def
      using l2 b w n p by (simp add: assms(1,2,3) Let_def)
    have "length (map (np_float P) (slice 12 3665 ?ls)) = length (map Some w)" using h by simp
    then have lw: "length w = min (length ?ls) 3665 - 12" by (simp add: length_slice)
    have "length (map (np_float P) (slice 3666 7319 ?ls)) = length (map Some n)" using h by simp
    then have ln: "length n = min (length ?ls) 7319 - 3666" by (simp add: length_slice)
    have "length (map (np_float P) (slice 7320 10973 ?ls)) = length (map Some p)" using h by simp
    then have lp: "length p = min (length ?ls) 10973 - 7320" by (simp add: length_slice)
    have lp2: "length p = length ?ls - 7320 \<and> length p < 3653"
      using lp assms(4) by simp
    show "load_calibration_data P lib s =
              (Inr (), s1\<lparr>bck_aT := Some b, wavelength := Some w, norm_coef := Some n,
                          power_coef := Some p, calibration_data_loaded := True\<rparr>) \<and>
            length w = min (length (splitlines t)) 3665 - 12 \<and>
            length n = min (length (splitlines t)) 7319 - 3666 \<and>
            length p = length (splitlines t) - 7320 \<and> length p < 3653"
      using load lw ln lp2 by simp
  qed
qed

lemma read_calibration_file_one_line:
  "read_calibration_file mock_lib (new_session one_line_device) =
     (Inr [48, 10],
      (new_session one_line_device)\<lparr>dev := one_line_device\<lparr>m_reads := [(0, 1000)]\<rparr>,
                                     trace := [ReadFlash 0 1000]\<rparr>)"
proof -
  let ?s1 = "(new_session one_line_device)\<lparr>dev := one_line_device\<lparr>m_reads := [(0, 1000)]\<rparr>,
                                  trace := [ReadFlash 0 1000]\<rparr>"
  have rf: "read_flash mock_lib 0 1000 (new_session one_line_device) =
          (Inr ([48, 10, 0xFF, 0xFF] @ replicate 996 0), ?s1)"
    by (simp add: read_flash_def mock_lib_def new_session_def one_line_device_def ctypes_buffer_def)
  have "read_calibration_loop mock_lib 0 False [] (new_session one_line_device)
          = read_calibration_loop mock_lib (0 + 1000) True ([] @ take 2 ([48, 10, 0xFF, 0xFF] @ replicate 996 0)) ?s1"
    by (subst loop_step) (simp_all add: rf)
  also have "\<dots> = (Inr ([] @ take 2 ([48, 10, 0xFF, 0xFF] @ replicate 996 0)), ?s1)"
    by (rule loop_stop) simp
  finally show ?thesis
    unfolding read_calibration_file_def by simp
qed

theorem load_calibration_data_short_text_witness:
  "load_calibration_data digit_parsers mock_lib (new_session one_line_device) =
     (Inl ValueError,
      (new_session one_line_device)\<lparr>dev := one_line_device\<lparr>m_reads := [(0, 1000)]\<rparr>,
                                     trace := [ReadFlash 0 1000]\<rparr>) \<and>
   load_calibration_data digit_parsers mock_lib (new_session short_device) =
     (Inr (),
      (new_session short_device)
        \<lparr>dev := short_device\<lparr>m_reads := [(0, 1000)]\<rparr>, trace := [ReadFlash 0 1000],
         bck_aT := Some 1, wavelength := Some [], norm_coef := Some [], power_coef := Some [],
         calibration_data_loaded := True\<rparr>) \<and>
   length ([] :: real list) < 3653"
proof -
  have n1: "\<not> calibration_data_loaded (new_session one_line_device)"
    and n2: "\<not> calibration_data_loaded (new_session short_device)"
    by (simp_all add: new_session_def)
  have u1: "utf8_decode [48, 10] = Some [48, 10]" by simp
  have s1: "splitlines [48, 10] = [[48]]" by (simp add: splitlines_def linebreak_def)
  have u2: "utf8_decode [48, 10, 49] = Some [48, 10, 49]" by simp
  have s2: "splitlines [48, 10, 49] = [[48], [49]]" by (simp add: splitlines_def linebreak_def)
  have l1: "length (splitlines [48, 10]) < 10973" and l1': "length (splitlines [48, 10]) < 2"
    by (simp_all add: s1)
  have l2: "length (splitlines [48, 10, 49]) < 10973" by (simp add: s2)
  have h2: "2 \<le> length (splitlines [48, 10, 49]) \<and>
            py_float digit_parsers (splitlines [48, 10, 49] ! 1) = Some 1 \<and>
            map (np_float digit_parsers) (slice 12 3665 (splitlines [48, 10, 49])) = map Some [] \<and>
            map (np_float digit_parsers) (slice 3666 7319 (splitlines [48, 10, 49])) = map Some [] \<and>
            map (np_float digit_parsers) (slice 7320 10973 (splitlines [48, 10, 49])) = map Some []"
    by (simp add: s2 digit_parsers_def digits_float_1 slice_def)
  from load_calibration_data_short_text[OF n1 read_calibration_file_one_line u1 l1,
         of digit_parsers, THEN conjunct1, THEN mp, OF l1']
  have a: "load_calibration_data digit_parsers mock_lib (new_session one_line_device) =
     (Inl ValueError,
      (new_session one_line_device)\<lparr>dev := one_line_device\<lparr>m_reads := [(0, 1000)]\<rparr>,
                                     trace := [ReadFlash 0 1000]\<rparr>)" .
  from load_calibration_data_short_text[OF n2 read_calibration_file_short u2 l2,
         of digit_parsers, THEN conjunct2, THEN spec, THEN spec, THEN spec, THEN spec, THEN mp, OF h2]
  have b: "load_calibration_data digit_parsers mock_lib (new_session short_device) =
     (Inr (),
      (new_session short_device)
        \<lparr>dev := short_device\<lparr>m_reads := [(0, 1000)]\<rparr>, trace := [ReadFlash 0 1000],
         bck_aT := Some 1, wavelength := Some [], norm_coef := Some [], power_coef := Some [],
         calibration_data_loaded := True\<rparr>)"
    by simp
  from a b show ?thesis by simp
qed

lemma ascii_byte: "c < 128 \<Longrightarrow> (word_of_nat c :: byte) < 0x80 \<and> unat (word_of_nat c :: byte) = c"
proof -
  assume c: "c < 128"
  have u: "unat (word_of_nat c :: byte) = c"
    by (simp only: unat_of_nat) (use c in simp)
  have "unat (word_of_nat c :: byte) < unat (0x80 :: byte)" using u c by simp
  then have "(word_of_nat c :: byte) < 0x80" by (simp only: word_less_nat_alt)
  with u show ?thesis by simp
qed

lemma utf8_decode_ascii:
  "list_all (\<lambda>c. c < 128) t \<Longrightarrow> utf8_decode (ascii_encode t) = Some t"
proof (induction t)
  case Nil
  show ?case by (simp add: ascii_encode_def)
next
  case (Cons c t)
  then have c: "c < 128" and t: "utf8_decode (ascii_encode t) = Some t" by simp_all
  show ?case
    using ascii_byte[OF c] t by (simp add: ascii_encode_def)
qed

lemma utf8_decode_FF: "0xFF \<in> set bs \<Longrightarrow> utf8_decode bs = None"
proof (induction bs rule: utf8_decode.induct)
  case 1
  then show ?case by simp
next
  case (2 b0 bs)
  show ?case
  proof (cases "b0 < 0x80")
    case True
    then have "b0 \<noteq> 0xFF" by auto
    then have "0xFF \<in> set bs" using "2.prems" by simp
    then have "utf8_decode bs = None" using "2.IH"(1) True by simp
    then show ?thesis using True by simp
  next
    case False
    note f1 = this
    show ?thesis
    proof (cases "0xC2 \<le> b0 \<and> b0 \<le> 0xDF")
      case True
      then have b0: "b0 \<noteq> 0xFF" by auto
      show ?thesis
      proof (cases bs)
        case Nil
        then show ?thesis using f1 True by simp
      next
        case (Cons b1 r)
        show ?thesis
        proof (cases "cont b1")
          case c: True
          then have "b1 \<noteq> 0xFF" by (auto simp: cont_def)
          then have "0xFF \<in> set r" using "2.prems" b0 Cons by simp
          then have "utf8_decode r = None" using "2.IH"(2)[OF f1 True Cons c] by simp
          then show ?thesis using f1 True Cons c by simp
        next
          case False
          then show ?thesis using f1 True Cons by simp
        qed
      qed
    next
      case False
      note f2 = this
      have e2: "(0xC2 \<le> b0 \<and> b0 \<le> 0xDF) = False" using f2 by simp
      show ?thesis
      proof (cases "0xE0 \<le> b0 \<and> b0 \<le> 0xEF")
        case True
        then have b0: "b0 \<noteq> 0xFF" by auto
        show ?thesis
        proof (cases bs)
          case Nil
          then show ?thesis using f1 True by (simp add: e2)
        next
          case (Cons b1 r1)
          note bs1 = this
          show ?thesis
          proof (cases r1)
            case Nil
            then show ?thesis using f1 True bs1 by (simp add: e2)
          next
            case (Cons b2 r)
            show ?thesis
            proof (cases "second_ok b0 b1 \<and> cont b2")
              case c: True
              then have "b1 \<noteq> 0xFF" "b2 \<noteq> 0xFF"
                by (auto simp: cont_def second_ok_def split: if_splits)
              then have "0xFF \<in> set r" using "2.prems" b0 bs1 Cons by simp
              then have "utf8_decode r = None"
                using "2.IH"(3)[OF f1 f2 True bs1 Cons c] by simp
              then show ?thesis using f1 True bs1 Cons c by (simp add: e2)
            next
              case False
              then show ?thesis using f1 True bs1 Cons by (auto simp: e2)
            qed
          qed
        qed
      next
        case False
        note f3 = this
        have e3: "(0xE0 \<le> b0 \<and> b0 \<le> 0xEF) = False" using f3 by simp
        show ?thesis
        proof (cases "0xF0 \<le> b0 \<and> b0 \<le> 0xF4")
          case True
          then have b0: "b0 \<noteq> 0xFF" by auto
          show ?thesis
          proof (cases bs)
            case Nil
            then show ?thesis using f1 True by (simp add: e2 e3)
          next
            case (Cons b1 r1)
            note bs1 = this
            show ?thesis
            proof (cases r1)
              case Nil
              then show ?thesis using f1 True bs1 by (simp add: e2 e3)
            next
              case (Cons b2 r2)
              note bs2 = this
              show ?thesis
              proof (cases r2)
                case Nil
                then show ?thesis using f1 True bs1 bs2 by (simp add: e2 e3)
              next
                case (Cons b3 r)
                show ?thesis
                proof (cases "second_ok b0 b1 \<and> cont b2 \<and> cont b3")
                  case c: True
                  then have "b1 \<noteq> 0xFF" "b2 \<noteq> 0xFF" "b3 \<noteq> 0xFF"
                    by (auto simp: cont_def second_ok_def split: if_splits)
                  then have "0xFF \<in> set r" using "2.prems" b0 bs1 bs2 Cons by simp
                  then have "utf8_decode r = None"
                    using "2.IH"(4)[OF f1 f2 f3 True bs1 bs2 Cons c] by simp
                  then show ?thesis using f1 True bs1 bs2 Cons c by (simp add: e2 e3)
                next
                  case False
                  then show ?thesis using f1 True bs1 bs2 Cons by (auto simp: e2 e3)
                qed
              qed
            qed
          qed
        next
          case False
          then have e4: "(0xF0 \<le> b0 \<and> b0 \<le> 0xF4) = False" by simp
          show ?thesis using f1 by (simp add: e2 e3 e4)
        qed
      qed
    qed
  qed
qed

lemma splitlines_from_line:
  "list_all (\<lambda>c. \<not> linebreak c) l \<Longrightarrow>
     splitlines_from cur (l @ 10 # rest) = (cur @ l) # splitlines_from [] rest"
proof (induction l arbitrary: cur)
  case Nil
  show ?case by (simp add: linebreak_def)
next
  case (Cons c l)
  then have c: "\<not> linebreak c" and l: "list_all (\<lambda>c. \<not> linebreak c) l" by simp_all
  from c have c13: "c \<noteq> 13" by (auto simp: linebreak_def)
  have "splitlines_from cur ((c # l) @ 10 # rest) = splitlines_from (cur @ [c]) (l @ 10 # rest)"
    using c c13 by simp
  also have "\<dots> = ((cur @ [c]) @ l) # splitlines_from [] rest" by (rule Cons.IH[OF l])
  finally show ?case by simp
qed

lemma splitlines_blob_text:
  "list_all plain_line ls \<Longrightarrow> splitlines (blob_text ls) = ls"
proof (induction ls)
  case Nil
  show ?case by (simp add: splitlines_def blob_text_def)
next
  case (Cons l ls)
  then have l: "list_all (\<lambda>c. \<not> linebreak c) l" and ls: "splitlines (blob_text ls) = ls"
    by (simp_all add: plain_line_def list_all_iff)
  have "blob_text (l # ls) = l @ 10 # blob_text ls" by (simp add: blob_text_def)
  then show ?case
    using splitlines_from_line[OF l, of "[]" "blob_text ls"] ls by (simp add: splitlines_def)
qed

lemma blob_text_ascii: "list_all plain_line ls \<Longrightarrow> list_all (\<lambda>c. c < 128) (blob_text ls)"
  by (induction ls) (auto simp: blob_text_def plain_line_def list_all_iff)

lemma length_blob_text: "length (blob_text ls) = sum_list (map length ls) + length ls"
  by (induction ls) (simp_all add: blob_text_def)

lemma ascii_encode_nth:
  "list_all (\<lambda>c. c < 128) t \<Longrightarrow> q < length t \<Longrightarrow> ascii_encode t ! q \<noteq> 0xFF"
proof -
  assume a: "list_all (\<lambda>c. c < 128) t" and q: "q < length t"
  then have "t ! q < 128" by (simp add: list_all_length)
  then have "(word_of_nat (t ! q) :: byte) < 0x80" by (simp only: ascii_byte)
  then have "(word_of_nat (t ! q) :: byte) \<noteq> 0xFF" by auto
  then show ?thesis using q by (simp add: ascii_encode_def)
qed

lemma blob_marker:
  assumes "list_all plain_line ls"
  shows "marker_at (blob ls @ rest) (length (blob_text ls)) \<and>
         (\<forall>q<length (blob_text ls). \<not> marker_at (blob ls @ rest) q)"
proof -
  let ?t = "blob_text ls"
  have len: "length (ascii_encode ?t) = length ?t" by (simp add: ascii_encode_def)
  have m: "marker_at (blob ls @ rest) (length ?t)"
    unfolding marker_at_def blob_def using len by (simp add: nth_append)
  have "\<And>q. q < length ?t \<Longrightarrow> \<not> marker_at (blob ls @ rest) q"
  proof -
    fix q assume q: "q < length ?t"
    have "(blob ls @ rest) ! q = ascii_encode ?t ! q"
      unfolding blob_def using q len by (simp add: nth_append)
    then have "(blob ls @ rest) ! q \<noteq> 0xFF"
      using ascii_encode_nth[OF blob_text_ascii[OF assms] q] by simp
    then show "\<not> marker_at (blob ls @ rest) q" by (simp add: marker_at_def)
  qed
  with m show ?thesis by blast
qed

lemma list_all_replicate: "list_all P (replicate n x) \<longleftrightarrow> n = 0 \<or> P x"
  by (induction n) auto

lemma load_parsed:
  assumes "\<not> calibration_data_loaded s"
    and "read_calibration_file lib s = (Inr calib, s1)"
    and "utf8_decode calib = Some t"
    and "1 < length (splitlines t)"
    and "py_float P (splitlines t ! 1) = Some b"
    and "map (np_float P) (slice 12 3665 (splitlines t)) = map Some w"
    and "map (np_float P) (slice 3666 7319 (splitlines t)) = map Some n"
    and "map (np_float P) (slice 7320 10973 (splitlines t)) = map Some p"
  shows "load_calibration_data P lib s =
           (Inr (), s1\<lparr>bck_aT := Some b, wavelength := Some w, norm_coef := Some n,
                       power_coef := Some p, calibration_data_loaded := True\<rparr>)"
proof -
  have w: "np_array P (slice 12 3665 (splitlines t)) = Some w"
    unfolding np_array_def assms(6) by (rule those_map_Some)
  have n: "np_array P (slice 3666 7319 (splitlines t)) = Some n"
    unfolding np_array_def assms(7) by (rule those_map_Some)
  have p: "np_array P (slice 7320 10973 (splitlines t)) = Some p"
    unfolding np_array_def assms(8) by (rule those_map_Some)
  show ?thesis
    unfolding load_calibration_data_def
    using assms(4,5) w n p by (simp add: assms(1,2,3) Let_def)
qed

lemma length_blob: "length (blob ls) = length (blob_text ls) + 2"
  by (simp add: blob_def ascii_encode_def)

lemma load_straddle:
  assumes "\<not> calibration_data_loaded s"
    and "flash_image lib (dev s) (blob ls @ rest)"
    and "list_all plain_line ls"
    and "length (blob_text ls) mod CHUNK_SIZE = 999"
    and "length (blob_text ls) div CHUNK_SIZE < 100"
  shows "fst (load_calibration_data P lib s) = Inl UnicodeDecodeError"
proof -
  let ?mem = "blob ls @ rest"
  let ?p = "length (blob_text ls)"
  from blob_marker[OF assms(3), of rest]
  have m: "marker_at ?mem ?p" and first: "\<forall>q<?p. \<not> marker_at ?mem q" by blast+
  from first have first': "\<forall>q<?p. marker_at ?mem q \<longrightarrow> q mod CHUNK_SIZE = 999" by blast
  have h: "?p mod CHUNK_SIZE = 999 \<and> ?p div CHUNK_SIZE < 100" using assms(4,5) by simp
  from marker_scan[OF assms(2) m first', THEN conjunct2, THEN mp, OF h, THEN conjunct1]
  obtain s1 where rcf: "read_calibration_file lib s =
      (Inr (take (Suc ?p) ?mem @ scan (map (chunk ?mem) [Suc (?p div CHUNK_SIZE)..<101])), s1)"
    by blast
  have lt: "?p < length (take (Suc ?p) ?mem)" by (simp add: length_blob)
  have "take (Suc ?p) ?mem ! ?p = ?mem ! ?p" by (rule nth_take) simp
  then have "take (Suc ?p) ?mem ! ?p = 0xFF" using m by (simp only: marker_at_def)
  then have "0xFF \<in> set (take (Suc ?p) ?mem)" using lt nth_mem by metis
  then have "0xFF \<in> set (take (Suc ?p) ?mem @ scan (map (chunk ?mem) [Suc (?p div CHUNK_SIZE)..<101]))"
    by (simp only: set_append Un_iff simp_thms)
  then have "utf8_decode (take (Suc ?p) ?mem @ scan (map (chunk ?mem) [Suc (?p div CHUNK_SIZE)..<101]))
               = None"
    by (rule utf8_decode_FF)
  then show ?thesis
    unfolding load_calibration_data_def by (simp add: assms(1) rcf)
qed

lemma synthetic_lines_facts:
  "length (synthetic_lines l0) = 10973"
  "sum_list (map length (synthetic_lines l0)) = length l0 + 10972"
  "synthetic_lines l0 ! Suc 0 = [55]"
  "slice 12 3665 (synthetic_lines l0) = replicate 3653 [49]"
  "slice 3666 7319 (synthetic_lines l0) = replicate 3653 [50]"
  "slice 7320 10973 (synthetic_lines l0) = replicate 3653 [51]"
  by (simp_all add: synthetic_lines_def slice_def nth_append sum_list_replicate)

lemma synthetic_lines_plain:
  "plain_line l0 \<Longrightarrow> list_all plain_line (synthetic_lines l0)"
  by (simp add: synthetic_lines_def list_all_replicate) (simp add: plain_line_def linebreak_def)

lemma digits_float_digit: "digits_float [55] = Some 7" "digits_float [50] = Some 2"
  "digits_float [51] = Some 3"
  by (simp_all add: digits_float_def)

text \<open>
  Claim C4 as it is stated fails. The blob has a first line of 54 characters, \<^verbatim>\<open>7\<close> on line 1,
  3653 wavelength lines \<^verbatim>\<open>1\<close>, 3653 normalization lines \<^verbatim>\<open>2\<close> and 3653 power lines \<^verbatim>\<open>3\<close>,
  10973 lines of ASCII text in 21999 bytes, and then the marker: its two bytes are the last
  byte of chunk 21 and the first of chunk 22, the marker is not found, the byte \<^verbatim>\<open>0xFF\<close> is
  accumulated, and the decoding raises \<^verbatim>\<open>UnicodeDecodeError\<close>.
\<close>

theorem straddling_blob_rejected:
  "fst (load_calibration_data digit_parsers mock_lib (new_session straddling_device))
     = Inl UnicodeDecodeError \<and>
   m_flash straddling_device = blob (synthetic_lines (replicate 54 104)) \<and>
   list_all plain_line (synthetic_lines (replicate 54 104)) \<and>
   length (synthetic_lines (replicate 54 104)) = 10973 \<and>
   length (blob_text (synthetic_lines (replicate 54 104))) = 21999 \<and>
   py_float digit_parsers (synthetic_lines (replicate 54 104) ! 1) = Some 7 \<and>
   map (np_float digit_parsers) (slice 12 3665 (synthetic_lines (replicate 54 104)))
     = map Some (replicate 3653 1) \<and>
   map (np_float digit_parsers) (slice 3666 7319 (synthetic_lines (replicate 54 104)))
     = map Some (replicate 3653 2) \<and>
   map (np_float digit_parsers) (slice 7320 10973 (synthetic_lines (replicate 54 104)))
     = map Some (replicate 3653 3)"
proof -
  let ?ls = "synthetic_lines (replicate 54 104)"
  let ?s = "new_session straddling_device"
  have pl: "list_all plain_line ?ls"
    by (rule synthetic_lines_plain) (simp add: plain_line_def list_all_replicate linebreak_def)
  have len: "length (blob_text ?ls) = 21999"
    by (simp add: length_blob_text synthetic_lines_facts)
  have nl: "\<not> calibration_data_loaded ?s" by (simp add: new_session_def)
  have st: "m_status straddling_device = 0" and fl: "m_flash straddling_device = blob ?ls"
    by (simp_all add: straddling_device_def)
  have im: "flash_image mock_lib (dev ?s) (blob ?ls @ [])"
    using flash_image_mock[OF st] by (simp add: fl new_session_def)
  have c: "fst (load_calibration_data digit_parsers mock_lib ?s) = Inl UnicodeDecodeError"
    by (rule load_straddle[OF nl im pl]) (simp_all add: len)
  have n: "length ?ls = 10973" by (simp add: synthetic_lines_facts)
  have b: "py_float digit_parsers (?ls ! 1) = Some 7"
    by (simp add: synthetic_lines_facts digit_parsers_def digits_float_digit)
  have w: "map (np_float digit_parsers) (slice 12 3665 ?ls) = map Some (replicate 3653 1)"
    by (simp add: synthetic_lines_facts digit_parsers_def digits_float_1)
  have nn: "map (np_float digit_parsers) (slice 3666 7319 ?ls) = map Some (replicate 3653 2)"
    by (simp add: synthetic_lines_facts digit_parsers_def digits_float_digit)
  have p: "map (np_float digit_parsers) (slice 7320 10973 ?ls) = map Some (replicate 3653 3)"
    by (simp add: synthetic_lines_facts digit_parsers_def digits_float_digit)
  show ?thesis
    by (intro conjI) (fact c fl pl n len b w nn p)+
qed

text \<open>
  Claim C4, amended. Let the lines \<open>ls\<close> be ASCII text without line boundaries, at least 10973
  of them, let the flash hold each line followed by a line feed and then the marker
  \<^verbatim>\<open>0xFF 0xFF\<close> (whatever follows the marker), and let \<^verbatim>\<open>float\<close> read \<open>b\<close> from line 1 and numpy
  the numbers \<open>w\<close>, \<open>n\<close> and \<open>p\<close> from the lines 12 to 3664, 3666 to 7318 and 7320 to 10972. If
  the text is \<open>m\<close> bytes long, with \<open>m mod 1000 \<noteq> 999\<close> (the marker lies within one chunk) and
  \<open>m div 1000 \<le> 100\<close> (in a chunk that is read), then \<^verbatim>\<open>load_calibration_data\<close> stores exactly
  \<open>b\<close>, \<open>w\<close>, \<open>n\<close> and \<open>p\<close>, each array of 3653 entries, after \<open>m div 1000 + 1\<close> chunk reads.
\<close>

theorem calibration_round_trip:
  assumes "\<not> calibration_data_loaded s"
    and "flash_image lib (dev s) (blob ls @ rest)"
    and "list_all plain_line ls"
    and "10973 \<le> length ls"
    and "length (blob_text ls) mod CHUNK_SIZE \<noteq> 999"
    and "length (blob_text ls) div CHUNK_SIZE \<le> 100"
    and "py_float P (ls ! 1) = Some b"
    and "map (np_float P) (slice 12 3665 ls) = map Some w"
    and "map (np_float P) (slice 3666 7319 ls) = map Some n"
    and "map (np_float P) (slice 7320 10973 ls) = map Some p"
  shows "load_calibration_data P lib s =
           (Inr (),
            s\<lparr>dev := flash_dev lib (dev s) (Suc (length (blob_text ls) div CHUNK_SIZE)),
              trace := trace s @ flash_reads 0 (Suc (length (blob_text ls) div CHUNK_SIZE)),
              bck_aT := Some b, wavelength := Some w, norm_coef := Some n, power_coef := Some p,
              calibration_data_loaded := True\<rparr>) \<and>
         length w = 3653 \<and> length n = 3653 \<and> length p = 3653"
proof -
  let ?mem = "blob ls @ rest"
  let ?t = "blob_text ls"
  let ?p = "length ?t"
  let ?s1 = "s\<lparr>dev := flash_dev lib (dev s) (Suc (?p div CHUNK_SIZE)),
               trace := trace s @ flash_reads 0 (Suc (?p div CHUNK_SIZE))\<rparr>"
  from blob_marker[OF assms(3), of rest]
  have m: "marker_at ?mem ?p" and first: "\<forall>q<?p. \<not> marker_at ?mem q" by blast+
  from first have first': "\<forall>q<?p. marker_at ?mem q \<longrightarrow> q mod CHUNK_SIZE = 999" by blast
  have h: "?p mod CHUNK_SIZE \<noteq> 999 \<and> ?p div CHUNK_SIZE \<le> 100" using assms(5,6) by simp
  have tk: "take ?p ?mem = ascii_encode ?t"
    by (simp add: blob_def ascii_encode_def)
  from marker_scan[OF assms(2) m first', THEN conjunct1, THEN mp, OF h]
  have rcf: "read_calibration_file lib s = (Inr (ascii_encode ?t), ?s1)"
    unfolding tk .
  have dec: "utf8_decode (ascii_encode ?t) = Some ?t"
    by (rule utf8_decode_ascii) (rule blob_text_ascii[OF assms(3)])
  have sl: "splitlines ?t = ls" by (rule splitlines_blob_text[OF assms(3)])
  have l1: "1 < length (splitlines ?t)" using assms(4) unfolding sl by simp
  have load: "load_calibration_data P lib s =
           (Inr (), ?s1\<lparr>bck_aT := Some b, wavelength := Some w, norm_coef := Some n,
                       power_coef := Some p, calibration_data_loaded := True\<rparr>)"
    by (rule load_parsed[OF assms(1) rcf dec l1]) (simp_all only: sl assms)
  have "length (map (np_float P) (slice 12 3665 ls)) = length (map Some w)"
    by (simp only: assms(8))
  then have lw: "length w = 3653" using assms(4) by (simp add: length_slice)
  have "length (map (np_float P) (slice 3666 7319 ls)) = length (map Some n)"
    by (simp only: assms(9))
  then have ln: "length n = 3653" using assms(4) by (simp add: length_slice)
  have "length (map (np_float P) (slice 7320 10973 ls)) = length (map Some p)"
    by (simp only: assms(10))
  then have lp: "length p = 3653" using assms(4) by (simp add: length_slice)
  show ?thesis using load lw ln lp by simp
qed

theorem calibration_round_trip_witness:
  "load_calibration_data digit_parsers mock_lib (new_session round_trip_device) =
     (Inr (),
      (new_session round_trip_device)
        \<lparr>dev := round_trip_device\<lparr>m_reads := map (\<lambda>i. (word_of_nat (CHUNK_SIZE * i), 1000)) [0..<22]\<rparr>,
         trace := flash_reads 0 22,
         bck_aT := Some 7, wavelength := Some (replicate 3653 1),
         norm_coef := Some (replicate 3653 2), power_coef := Some (replicate 3653 3),
         calibration_data_loaded := True\<rparr>) \<and>
   length (replicate 3653 (1::real)) = 3653"
proof -
  let ?ls = "synthetic_lines [104]"
  let ?s = "new_session round_trip_device"
  have pl: "list_all plain_line ?ls"
    by (rule synthetic_lines_plain) (simp add: plain_line_def linebreak_def)
  have len: "length (blob_text ?ls) = 21946"
    by (simp add: length_blob_text synthetic_lines_facts)
  have nl: "\<not> calibration_data_loaded ?s" by (simp add: new_session_def)
  have st: "m_status round_trip_device = 0" and fl: "m_flash round_trip_device = blob ?ls"
    and rd: "m_reads round_trip_device = []"
    by (simp_all add: round_trip_device_def)
  have ds: "dev ?s = round_trip_device" and ts: "trace ?s = []" by (simp_all add: new_session_def)
  have im: "flash_image mock_lib (dev ?s) (blob ?ls @ [])"
    using flash_image_mock[OF st] by (simp add: fl new_session_def)
  have n: "10973 \<le> length ?ls" by (simp add: synthetic_lines_facts)
  have m1: "length (blob_text ?ls) mod CHUNK_SIZE \<noteq> 999"
    and m2: "length (blob_text ?ls) div CHUNK_SIZE \<le> 100"
    by (simp_all add: len)
  have b: "py_float digit_parsers (?ls ! 1) = Some 7"
    by (simp add: synthetic_lines_facts digit_parsers_def digits_float_digit)
  have w: "map (np_float digit_parsers) (slice 12 3665 ?ls) = map Some (replicate 3653 1)"
    by (simp add: synthetic_lines_facts digit_parsers_def digits_float_1)
  have nn: "map (np_float digit_parsers) (slice 3666 7319 ?ls) = map Some (replicate 3653 2)"
    by (simp add: synthetic_lines_facts digit_parsers_def digits_float_digit)
  have p: "map (np_float digit_parsers) (slice 7320 10973 ?ls) = map Some (replicate 3653 3)"
    by (simp add: synthetic_lines_facts digit_parsers_def digits_float_digit)
  have k: "Suc (21946 div CHUNK_SIZE) = 22" by simp
  from calibration_round_trip[OF nl im pl n m1 m2 b w nn p]
  show ?thesis
    unfolding len k ds ts flash_dev_mock rd by simp
qed

end
